theory Spec2Isabelle
  imports Complex_Main
begin

section \<open>Python values, text and exceptions\<close>

text \<open>
  The service is one Python module, \<^verbatim>\<open>app.py\<close>: a Flask application over one
  SQLite table. Its handlers are modelled as functions that return either the Python
  exception that leaves the handler uncaught (\<open>Inl\<close>) or the response the handler
  returns (\<open>Inr\<close>). A text is a list of code points below 256 (the 8-bit characters
  of HOL).
\<close>

datatype py_error =
    ValueError
  | TypeError
  | KeyError
  | AttributeError
  | IndexError
  | OverflowError
  | Sqlite3Error
  | RecognitionError

subsection \<open>Floats\<close>

text \<open>
  A Python \<^verbatim>\<open>float\<close> is a finite number, an infinity or a NaN. A finite float is
  modelled by the real number it denotes: rounding to 53 bits is not modelled, the
  overflow to an infinity and the underflow to zero are (a real rounds to an infinity
  from \<open>2\<^sup>1\<^sup>0\<^sup>2\<^sup>4 - 2\<^sup>9\<^sup>7\<^sup>0\<close> on, half an ulp above the largest float, and to zero up to
  \<open>2\<^sup>-\<^sup>1\<^sup>0\<^sup>7\<^sup>5\<close>, half the smallest float). The two zeros are one.
\<close>

datatype pyfloat = Finite real | PosInf | NegInf | NaN

definition overflow_bound :: real where
  \<comment> \<open>\<open>2\<^sup>1\<^sup>0\<^sup>2\<^sup>4 - 2\<^sup>9\<^sup>7\<^sup>0\<close>, written out\<close>
  "overflow_bound =
     179769313486231580793728971405303415079934132710037826936173778980444968292764750946649017977587207096330286416692887910946555547851940402630657488671505820681908902000708383676273854845817711531764475730270069855571366959622842914819860834936475292719074168444365510704342711559699508093042880177904174497792"

definition underflow_bound :: real where
  \<comment> \<open>\<open>1 / 2\<^sup>1\<^sup>0\<^sup>7\<^sup>5\<close>, written out\<close>
  "underflow_bound =
     1 / 404804506614621236704990693437834614099113299528284236713802716054860679135990693783920767402874248990374155728633623822779617474771586953734026799881477019843034848553132722728933815484186432682479535356945490137124014966849385397236206711298319112681620113024717539104666829230461005064372655017292012526615415482186989568"

definition float_of_real :: "real \<Rightarrow> pyfloat" where
  "float_of_real x =
     (if overflow_bound \<le> x then PosInf
      else if x \<le> - overflow_bound then NegInf
      else if \<bar>x\<bar> \<le> underflow_bound then Finite 0
      else Finite x)"

definition fsign :: "pyfloat \<Rightarrow> int" where
  "fsign x =
     (case x of
        Finite a \<Rightarrow> if a < 0 then - 1 else if a = 0 then 0 else 1
      | PosInf \<Rightarrow> 1
      | NegInf \<Rightarrow> - 1
      | NaN \<Rightarrow> 0)"

definition fmul :: "pyfloat \<Rightarrow> pyfloat \<Rightarrow> pyfloat" where
  \<comment> \<open>\<^verbatim>\<open>x * y\<close>: a NaN gives a NaN, and so does an infinity times zero\<close>
  "fmul x y =
     (if x = NaN \<or> y = NaN then NaN
      else (case (x, y) of
              (Finite a, Finite b) \<Rightarrow> float_of_real (a * b)
            | _ \<Rightarrow> if fsign x * fsign y = 0 then NaN
                   else if 0 < fsign x * fsign y then PosInf else NegInf))"

fun flt :: "pyfloat \<Rightarrow> pyfloat \<Rightarrow> bool" where
  \<comment> \<open>\<^verbatim>\<open>x < y\<close>: false when either is a NaN\<close>
  "flt NaN y = False"
| "flt x NaN = False"
| "flt (Finite a) (Finite b) = (a < b)"
| "flt PosInf y = False"
| "flt x PosInf = True"
| "flt x NegInf = False"
| "flt NegInf y = True"

definition float_truthy :: "pyfloat \<Rightarrow> bool" where
  \<comment> \<open>only zero is false\<close>
  "float_truthy x \<longleftrightarrow> x \<noteq> Finite 0"

subsection \<open>Text\<close>

definition is_digit :: "char \<Rightarrow> bool" where
  \<comment> \<open>\<^verbatim>\<open>\d\<close>, and the digits \<^verbatim>\<open>float\<close> reads\<close>
  "is_digit c \<longleftrightarrow> c \<in> set ''0123456789''"

definition is_space :: "char \<Rightarrow> bool" where
  \<comment> \<open>\<^verbatim>\<open>\s\<close> of a \<^verbatim>\<open>str\<close> pattern, which is \<^verbatim>\<open>str.isspace\<close>: tab, line feed, vertical tab,
      form feed, carriage return, the four separators 0x1C to 0x1F, space, NEL and the
      no-break space\<close>
  "is_space c \<longleftrightarrow> c \<in> set [CHR 0x09, CHR 0x0A, CHR 0x0B, CHR 0x0C, CHR 0x0D,
     CHR 0x1C, CHR 0x1D, CHR 0x1E, CHR 0x1F, CHR 0x20, CHR 0x85, CHR 0xA0]"

definition lower_char :: "char \<Rightarrow> char" where
  "lower_char c =
     (let n = (of_char c :: nat)
      in if (65 \<le> n \<and> n \<le> 90) \<or> (192 \<le> n \<and> n \<le> 222 \<and> n \<noteq> 215)
         then char_of (n + 32) else c)"

definition py_lower :: "string \<Rightarrow> string" where
  \<comment> \<open>\<^verbatim>\<open>str.lower\<close>\<close>
  "py_lower s = map lower_char s"

fun py_join :: "string \<Rightarrow> string list \<Rightarrow> string" where
  \<comment> \<open>\<^verbatim>\<open>sep.join(xs)\<close>\<close>
  "py_join sep [] = []"
| "py_join sep [x] = x"
| "py_join sep (x # y # ys) = x @ sep @ py_join sep (y # ys)"

definition is_float_space :: "char \<Rightarrow> bool" where
  \<comment> \<open>the whitespace that \<^verbatim>\<open>float\<close> drops around a number: of the code points below 128
      those of C's \<^verbatim>\<open>isspace\<close>, and beyond them NEL and the no-break space (the
      separators 0x1C to 0x1F stay, and make the text no number)\<close>
  "is_float_space c \<longleftrightarrow> c \<in> set [CHR 0x09, CHR 0x0A, CHR 0x0B, CHR 0x0C, CHR 0x0D,
     CHR 0x20, CHR 0x85, CHR 0xA0]"

definition py_strip :: "string \<Rightarrow> string" where
  "py_strip s = rev (dropWhile is_float_space (rev (dropWhile is_float_space s)))"

definition starts_with :: "string \<Rightarrow> string \<Rightarrow> bool" where
  "starts_with u s \<longleftrightarrow> take (length u) s = u"

subsection \<open>\<^verbatim>\<open>float(str)\<close>\<close>

definition digit_val :: "char \<Rightarrow> nat" where
  "digit_val c = of_char c - 48"

definition digits_val :: "string \<Rightarrow> nat" where
  "digits_val ds = foldl (\<lambda>n c. 10 * n + digit_val c) 0 ds"

fun strip_underscores :: "char \<Rightarrow> string \<Rightarrow> string option" where
  \<comment> \<open>an underscore is accepted between two digits only, and removed; the first argument
      is the character before\<close>
  "strip_underscores prev [] = (if prev = CHR ''_'' then None else Some [])"
| "strip_underscores prev (c # cs) =
     (if c = CHR ''_'' then (if is_digit prev then strip_underscores c cs else None)
      else if prev = CHR ''_'' \<and> \<not> is_digit c then None
      else map_option ((#) c) (strip_underscores c cs))"

definition split_sign :: "string \<Rightarrow> bool \<times> string" where
  "split_sign s =
     (case s of
        [] \<Rightarrow> (False, [])
      | c # cs \<Rightarrow> if c = CHR ''-'' then (True, cs)
                 else if c = CHR ''+'' then (False, cs) else (False, s))"

definition parse_exponent :: "string \<Rightarrow> int option" where
  "parse_exponent r =
     (case r of
        [] \<Rightarrow> Some 0
      | c # cs \<Rightarrow>
          if c = CHR ''e'' \<or> c = CHR ''E''
          then (case split_sign cs of
                  (neg, ds) \<Rightarrow>
                    if ds \<noteq> [] \<and> list_all is_digit ds
                    then Some (if neg then - int (digits_val ds) else int (digits_val ds))
                    else None)
          else None)"

definition py_float :: "string \<Rightarrow> py_error + pyfloat" where
  \<comment> \<open>surrounding whitespace is dropped; then a sign, and \<^verbatim>\<open>inf\<close>, \<^verbatim>\<open>infinity\<close> or
      \<^verbatim>\<open>nan\<close> in any case, or digits with an optional point and an optional exponent\<close>
  "py_float str =
     (case strip_underscores (CHR 0x00) (py_strip str) of
        None \<Rightarrow> Inl ValueError
      | Some t \<Rightarrow>
          (case split_sign t of
             (neg, body) \<Rightarrow>
               if py_lower body \<in> set [''inf'', ''infinity''] then Inr (if neg then NegInf else PosInf)
               else if py_lower body = ''nan'' then Inr NaN
               else
                 let ip = takeWhile is_digit body;
                     r1 = dropWhile is_digit body;
                     has_dot = (r1 \<noteq> [] \<and> hd r1 = CHR ''.'');
                     fp = (if has_dot then takeWhile is_digit (tl r1) else []);
                     r2 = (if has_dot then dropWhile is_digit (tl r1) else r1)
                 in if ip = [] \<and> fp = [] then Inl ValueError
                    else
                      (case parse_exponent r2 of
                         None \<Rightarrow> Inl ValueError
                       | Some e \<Rightarrow>
                           Inr (float_of_real
                                 ((if neg then - 1 else 1)
                                  * (real (digits_val (ip @ fp)) / 10 ^ length fp)
                                  * (if 0 \<le> e then 10 ^ nat e else 1 / 10 ^ nat (- e)))))))"

section \<open>Energy extractor\<close>

subsection \<open>The pattern \<^verbatim>\<open>(\d+\.?\d*)\s*(kwh|kw)\<close>\<close>

text \<open>
  \<^verbatim>\<open>re.search\<close> is a backtracking matcher: at a start position it tries the choices of
  every quantifier in order of preference (a greedy quantifier the longest first, the
  alternation from left to right) and keeps the first combination that matches; the
  start positions are tried from left to right. \<open>match_here\<close> lists the matches at one
  start position, as the pair of the two groups, in that order of preference.
\<close>

definition greedy :: "(char \<Rightarrow> bool) \<Rightarrow> nat \<Rightarrow> string \<Rightarrow> nat list" where
  \<comment> \<open>the numbers of characters a greedy repetition of a character class takes, at
      least \<open>lo\<close>, the longest first\<close>
  "greedy P lo s = rev [lo ..< Suc (length (takeWhile P s))]"

definition optional_dot :: "string \<Rightarrow> nat list" where
  \<comment> \<open>\<^verbatim>\<open>\.?\<close>: one point if there is one, then none\<close>
  "optional_dot s = (if starts_with ''.'' s then [1, 0] else [0])"

definition units_at :: "string \<Rightarrow> string list" where
  \<comment> \<open>\<^verbatim>\<open>(kwh|kw)\<close>\<close>
  "units_at s = filter (\<lambda>u. starts_with u s) [''kwh'', ''kw'']"

definition match_here :: "string \<Rightarrow> (string \<times> string) list" where
  "match_here s =
     [(take (a + b + c) s, u).
        a \<leftarrow> greedy is_digit 1 s,
        b \<leftarrow> optional_dot (drop a s),
        c \<leftarrow> greedy is_digit 0 (drop (a + b) s),
        w \<leftarrow> greedy is_space 0 (drop (a + b + c) s),
        u \<leftarrow> units_at (drop (a + b + c + w) s)]"

fun re_search :: "string \<Rightarrow> (string \<times> string) option" where
  "re_search [] = (case match_here [] of m # _ \<Rightarrow> Some m | [] \<Rightarrow> None)"
| "re_search (x # xs) =
     (case match_here (x # xs) of m # _ \<Rightarrow> Some m | [] \<Rightarrow> re_search xs)"

subsection \<open>\<^verbatim>\<open>extract_energy_from_image\<close>\<close>

text \<open>
  Decoding the image and recognising its text are the work of OpenCV and EasyOCR. They
  are the parameter \<open>readtext\<close>: the texts \<^verbatim>\<open>res[1]\<close> of the regions that
  \<^verbatim>\<open>reader.readtext\<close> finds in the decoded image, or the exception raised on the way.
\<close>

definition extract_energy_from_image ::
  "('img \<Rightarrow> py_error + string list) \<Rightarrow> 'img \<Rightarrow> py_error + (pyfloat option \<times> string)" where
  "extract_energy_from_image readtext image_bytes =
     (case readtext image_bytes of
        Inl e \<Rightarrow> Inl e
      | Inr results \<Rightarrow>
          let text = py_lower (py_join '' '' results)
          in (case re_search text of
                Some (g1, unit) \<Rightarrow>
                  (case py_float g1 of
                     Inl e \<Rightarrow> Inl e
                   | Inr val \<Rightarrow>
                       Inr (Some (if unit = ''kw'' then fmul val (Finite (24 * 365 / 1000))
                                  else val), text))
              | None \<Rightarrow> Inr (None, text)))"

section \<open>Record store\<close>

text \<open>
  The store is the SQLite table \<^verbatim>\<open>appliances\<close> that \<^verbatim>\<open>init_db\<close> creates. SQLite itself is
  not part of the repository; the model keeps what the statements of \<^verbatim>\<open>app.py\<close> use.
  The column \<^verbatim>\<open>id INTEGER PRIMARY KEY AUTOINCREMENT\<close> is the key of the table: a scan
  returns the rows by ascending key, and a new row gets a key one larger than the
  largest key the table ever held, which SQLite records in \<^verbatim>\<open>sqlite_sequence\<close>; no
  key beyond \<open>2\<^sup>6\<^sup>3 - 1\<close> is assigned, the insert fails instead. A row is
  \<^verbatim>\<open>r[0]\<close> to \<^verbatim>\<open>r[5]\<close>; every column but the key may hold NULL (\<open>None\<close>). SQLite
  keeps no NaN: a NaN bound to a statement is stored, and compared, as NULL.
\<close>

record appliance =
  id_key :: int
  name :: "string option"
  energy_kwh :: "pyfloat option"
  price :: "pyfloat option"
  energy_rate :: "pyfloat option"
  timestamp :: "string option"

record database =
  rows :: "appliance list"  \<comment> \<open>the table, in the order of a scan\<close>
  seq :: int  \<comment> \<open>the entry of the table in \<^verbatim>\<open>sqlite_sequence\<close>\<close>

definition init_db :: "database option \<Rightarrow> database" where
  \<comment> \<open>\<^verbatim>\<open>CREATE TABLE IF NOT EXISTS\<close>: an empty table where the file had none\<close>
  "init_db file = (case file of None \<Rightarrow> \<lparr>rows = [], seq = 0\<rparr> | Some db \<Rightarrow> db)"

definition next_key :: "database \<Rightarrow> int" where
  "next_key db = max (seq db) (fold max (map id_key (rows db)) 0) + 1"

definition sql_real :: "pyfloat \<Rightarrow> pyfloat option" where
  \<comment> \<open>a Python float as SQLite takes it\<close>
  "sql_real x = (if x = NaN then None else Some x)"

definition sql_insert ::
  "string \<Rightarrow> string option \<Rightarrow> pyfloat option \<Rightarrow> pyfloat \<Rightarrow> pyfloat \<Rightarrow> database \<Rightarrow>
     py_error + database" where
  \<comment> \<open>\<^verbatim>\<open>INSERT INTO appliances (name, energy_kwh, price, energy_rate) VALUES (?, ?, ?, ?)\<close>
      and the commit, at the time \<open>now\<close> of \<^verbatim>\<open>CURRENT_TIMESTAMP\<close>\<close>
  "sql_insert now nm kwh pr rate db =
     (if 9223372036854775807 < next_key db then Inl Sqlite3Error
      else Inr \<lparr>rows = rows db @
                  [\<lparr>id_key = next_key db, name = nm, energy_kwh = Option.bind kwh sql_real,
                    price = sql_real pr, energy_rate = sql_real rate,
                    timestamp = Some now\<rparr>],
                seq = next_key db\<rparr>)"

datatype sql_value = SqlNull | SqlInteger int | SqlReal pyfloat | SqlText string

definition key_equals :: "(string \<Rightarrow> real option) \<Rightarrow> int \<Rightarrow> sql_value \<Rightarrow> bool" where
  \<comment> \<open>\<^verbatim>\<open>id = ?\<close>. Numbers compare by value and NULL equals nothing. A text is first
      converted to the number it spells, if any: that conversion of SQLite is the
      parameter \<open>numeric\<close>\<close>
  "key_equals numeric k v =
     (case v of
        SqlNull \<Rightarrow> False
      | SqlInteger i \<Rightarrow> k = i
      | SqlReal x \<Rightarrow> x = Finite (real_of_int k)
      | SqlText t \<Rightarrow> numeric t = Some (real_of_int k))"

definition select_in ::
  "(string \<Rightarrow> real option) \<Rightarrow> database \<Rightarrow> sql_value \<Rightarrow> sql_value \<Rightarrow> appliance list" where
  \<comment> \<open>\<^verbatim>\<open>SELECT * FROM appliances WHERE id IN (?, ?)\<close>\<close>
  "select_in numeric db p0 p1 =
     filter (\<lambda>r. key_equals numeric (id_key r) p0 \<or> key_equals numeric (id_key r) p1) (rows db)"

section \<open>Requests and responses\<close>

datatype json =
    JNull
  | JBool bool
  | JInt int
  | JFloat pyfloat
  | JStr string
  | JList "json list"
  | JObj "(string \<times> json) list"

definition dict_get :: "(string \<times> json) list \<Rightarrow> string \<Rightarrow> json option" where
  \<comment> \<open>of a repeated key of a JSON object, the last value stays\<close>
  "dict_get kvs k = map_of (rev kvs) k"

fun py_truthy :: "json \<Rightarrow> bool" where
  "py_truthy JNull = False"
| "py_truthy (JBool b) = b"
| "py_truthy (JInt i) = (i \<noteq> 0)"
| "py_truthy (JFloat x) = float_truthy x"
| "py_truthy (JStr s) = (s \<noteq> [])"
| "py_truthy (JList xs) = (xs \<noteq> [])"
| "py_truthy (JObj kvs) = (kvs \<noteq> [])"

fun py_len :: "json \<Rightarrow> py_error + nat" where
  "py_len (JStr s) = Inr (length s)"
| "py_len (JList xs) = Inr (length xs)"
| "py_len (JObj kvs) = Inr (length (remdups (map fst kvs)))"
| "py_len _ = Inl TypeError"

fun py_index :: "json \<Rightarrow> nat \<Rightarrow> py_error + json" where
  \<comment> \<open>\<^verbatim>\<open>v[i]\<close> for the literal indices 0 and 1; the keys of a JSON object are strings\<close>
  "py_index (JList xs) i = (if i < length xs then Inr (xs ! i) else Inl IndexError)"
| "py_index (JStr s) i = (if i < length s then Inr (JStr [s ! i]) else Inl IndexError)"
| "py_index (JObj kvs) i = Inl KeyError"
| "py_index _ i = Inl TypeError"

fun sql_bind :: "json \<Rightarrow> py_error + sql_value" where
  \<comment> \<open>a Python value as the parameter of a statement\<close>
  "sql_bind JNull = Inr SqlNull"
| "sql_bind (JBool b) = Inr (SqlInteger (if b then 1 else 0))"
| "sql_bind (JInt i) =
     (if - 9223372036854775808 \<le> i \<and> i \<le> 9223372036854775807 then Inr (SqlInteger i)
      else Inl OverflowError)"
| "sql_bind (JFloat x) = Inr (case sql_real x of None \<Rightarrow> SqlNull | Some v \<Rightarrow> SqlReal v)"
| "sql_bind (JStr s) = Inr (SqlText s)"
| "sql_bind (JList xs) = Inl Sqlite3Error"
| "sql_bind (JObj kvs) = Inl Sqlite3Error"

datatype entry = Entry (entry_name: "string option") (annual_cost: pyfloat) (carbon: pyfloat)

datatype payload =
    Error string  \<comment> \<open>\<^verbatim>\<open>{"error": ...}\<close>\<close>
  | OcrResult "pyfloat option" string  \<comment> \<open>\<^verbatim>\<open>energy_kwh\<close>, \<^verbatim>\<open>raw_text\<close>\<close>
  | Added "string option" pyfloat "pyfloat option" pyfloat
      \<comment> \<open>\<^verbatim>\<open>data\<close>: \<^verbatim>\<open>name\<close>, \<^verbatim>\<open>price\<close>, \<^verbatim>\<open>energy_kwh\<close>, \<^verbatim>\<open>energy_rate\<close>\<close>
  | Appliances "appliance list"
  | Comparison (side_A: entry) (side_B: entry) (recommended: "string option")

type_synonym response = "nat \<times> payload"  \<comment> \<open>the status code and the JSON body\<close>

type_synonym 'img upload = "string \<times> 'img"  \<comment> \<open>the file name and the bytes\<close>

subsection \<open>\<^verbatim>\<open>/ocr\<close>\<close>

definition ocr_endpoint ::
  "('img \<Rightarrow> py_error + string list) \<Rightarrow> 'img upload option \<Rightarrow> py_error + response" where
  "ocr_endpoint readtext image_file =
     (case image_file of
        None \<Rightarrow> Inr (400, Error ''No image uploaded'')
      | Some (filename, bytes) \<Rightarrow>
          (case extract_energy_from_image readtext bytes of
             Inl e \<Rightarrow> Inl e
           | Inr (energy, raw_text) \<Rightarrow> Inr (200, OcrResult energy raw_text)))"

subsection \<open>\<^verbatim>\<open>/add_appliance\<close>\<close>

definition float_field :: "(string \<times> string) list \<Rightarrow> string \<Rightarrow> py_error + pyfloat" where
  \<comment> \<open>\<^verbatim>\<open>float(request.form.get(k, 0))\<close>\<close>
  "float_field form k =
     (case map_of form k of None \<Rightarrow> Inr (Finite 0) | Some s \<Rightarrow> py_float s)"

definition add_appliance ::
  "('img \<Rightarrow> py_error + string list) \<Rightarrow> string \<Rightarrow> (string \<times> string) list \<Rightarrow>
     'img upload option \<Rightarrow> database \<Rightarrow> py_error + (response \<times> database)" where
  \<comment> \<open>the response and the store after the commit; an exception leaves the store as it
      was. An uploaded file counts (\<^verbatim>\<open>if image:\<close>) when its file name is not empty\<close>
  "add_appliance readtext now form image_file db =
     (let nm = map_of form ''name'' in
      case float_field form ''price'' of
        Inl e \<Rightarrow> Inl e
      | Inr pr \<Rightarrow>
      (case float_field form ''energy_rate'' of
         Inl e \<Rightarrow> Inl e
       | Inr rate \<Rightarrow>
       (case (case image_file of
                None \<Rightarrow> Inr None
              | Some (filename, bytes) \<Rightarrow>
                  if filename = [] then Inr None
                  else (case extract_energy_from_image readtext bytes of
                          Inl e \<Rightarrow> Inl e
                        | Inr (kwh, raw_text) \<Rightarrow> Inr kwh)) of
          Inl e \<Rightarrow> Inl e
        | Inr kwh \<Rightarrow>
        (case sql_insert now nm kwh pr rate db of
           Inl e \<Rightarrow> Inl e
         | Inr db' \<Rightarrow> Inr ((200, Added nm pr kwh rate), db')))))"

subsection \<open>\<^verbatim>\<open>/list_appliances\<close>\<close>

definition list_appliances :: "database \<Rightarrow> py_error + response" where
  \<comment> \<open>\<^verbatim>\<open>SELECT * FROM appliances\<close>\<close>
  "list_appliances db = Inr (200, Appliances (rows db))"

subsection \<open>\<^verbatim>\<open>/compare\<close>\<close>

definition cost :: "appliance \<Rightarrow> pyfloat" where
  \<comment> \<open>\<^verbatim>\<open>a[2] * a[4] if a[2] and a[4] else 0\<close>\<close>
  "cost a =
     (case energy_kwh a of
        None \<Rightarrow> Finite 0
      | Some e \<Rightarrow>
          (case energy_rate a of
             None \<Rightarrow> Finite 0
           | Some r \<Rightarrow> if float_truthy e \<and> float_truthy r then fmul e r else Finite 0))"

definition compare :: "(string \<Rightarrow> real option) \<Rightarrow> json \<Rightarrow> database \<Rightarrow> py_error + response" where
  \<comment> \<open>the argument \<open>body\<close> is \<^verbatim>\<open>request.json\<close>\<close>
  "compare numeric body db =
     (case body of
        JObj kvs \<Rightarrow>
          let ids = (case dict_get kvs ''ids'' of None \<Rightarrow> JNull | Some v \<Rightarrow> v)
          in if \<not> py_truthy ids then Inr (400, Error ''Provide exactly 2 IDs'')
             else
               (case py_len ids of
                  Inl e \<Rightarrow> Inl e
                | Inr n \<Rightarrow>
                    if n \<noteq> 2 then Inr (400, Error ''Provide exactly 2 IDs'')
                    else
                      (case py_index ids 0 of
                         Inl e \<Rightarrow> Inl e
                       | Inr i0 \<Rightarrow>
                       (case py_index ids 1 of
                          Inl e \<Rightarrow> Inl e
                        | Inr i1 \<Rightarrow>
                        (case sql_bind i0 of
                           Inl e \<Rightarrow> Inl e
                         | Inr p0 \<Rightarrow>
                         (case sql_bind i1 of
                            Inl e \<Rightarrow> Inl e
                          | Inr p1 \<Rightarrow>
                              let fetched = select_in numeric db p0 p1
                              in if length fetched < 2
                                 then Inr (404, Error ''Appliances not found'')
                                 else
                                   (case fetched of
                                      [a1, a2] \<Rightarrow>
                                        let cost1 = cost a1; cost2 = cost a2;
                                            carbon1 = fmul cost1 (Finite 0.82);
                                            carbon2 = fmul cost2 (Finite 0.82);
                                            better = (if flt cost1 cost2 then a1 else a2)
                                        in Inr (200,
                                             Comparison (Entry (name a1) cost1 carbon1)
                                               (Entry (name a2) cost2 carbon2) (name better))
                                    | _ \<Rightarrow> Inl ValueError))))))
      | _ \<Rightarrow> Inl AttributeError)"

subsection \<open>The lifetime of the store\<close>

text \<open>
  Of the six routes only \<^verbatim>\<open>/add_appliance\<close> writes: \<^verbatim>\<open>/\<close> touches no table and
  \<^verbatim>\<open>/ocr\<close>, \<^verbatim>\<open>/list_appliances\<close>, \<^verbatim>\<open>/compare\<close> and \<^verbatim>\<open>/export_pdf\<close> run no statement
  but a \<^verbatim>\<open>SELECT\<close>. A request arrives at a time, the \<^verbatim>\<open>CURRENT_TIMESTAMP\<close> of an insert.
  The module calls \<^verbatim>\<open>init_db\<close> when it is loaded: the first process starts on no file,
  and a process may end and another start on the file it left.
\<close>

datatype 'img request =
    Home
  | OcrRequest "'img upload option"
  | AddAppliance "(string \<times> string) list" "'img upload option"
  | ListAppliances
  | Compare json
  | ExportPdf

datatype 'img event =
    Request string "'img request"  \<comment> \<open>a request, and the time it arrives\<close>
  | Restart  \<comment> \<open>a new process on the file of the last one\<close>

fun serve ::
  "('img \<Rightarrow> py_error + string list) \<Rightarrow> database \<Rightarrow> string \<times> 'img request \<Rightarrow> database" where
  \<comment> \<open>the store after a request\<close>
  "serve readtext db (now, AddAppliance form image_file) =
     (case add_appliance readtext now form image_file db of
        Inl e \<Rightarrow> db
      | Inr (resp, db') \<Rightarrow> db')"
| "serve readtext db (now, req) = db"

fun step :: "('img \<Rightarrow> py_error + string list) \<Rightarrow> database \<Rightarrow> 'img event \<Rightarrow> database" where
  "step readtext db (Request now req) = serve readtext db (now, req)"
| "step readtext db Restart = init_db (Some db)"

definition run :: "('img \<Rightarrow> py_error + string list) \<Rightarrow> 'img event list \<Rightarrow> database" where
  \<comment> \<open>the store after the events that follow the start of the first process\<close>
  "run readtext evs = foldl (step readtext) (init_db None) evs"

section \<open>The specification's notions\<close>

text \<open>
  What the specification calls a decimal number followed by optional whitespace and a
  unit, stated on its own, to be compared with the matcher above: an occurrence at
  position \<open>p\<close> of a text is a number, whitespace and a unit that the text holds from
  \<open>p\<close> on.
\<close>

definition spec_decimal_number :: "string \<Rightarrow> bool" where
  "spec_decimal_number num \<longleftrightarrow>
     (\<exists>ip dot fp. num = ip @ dot @ fp \<and> ip \<noteq> [] \<and> list_all is_digit ip \<and>
        (dot = [] \<or> dot = ''.'') \<and> list_all is_digit fp)"

definition spec_occurs_at :: "string \<Rightarrow> nat \<Rightarrow> string \<Rightarrow> string \<Rightarrow> bool" where
  "spec_occurs_at text p num unit \<longleftrightarrow>
     spec_decimal_number num \<and> (unit = ''kwh'' \<or> unit = ''kw'') \<and>
     (\<exists>ws rest. list_all is_space ws \<and> drop p text = num @ ws @ unit @ rest)"

definition num_char :: "char \<Rightarrow> bool" where
  "num_char c \<longleftrightarrow> is_digit c \<or> c = CHR ''.''"

section \<open>An example store\<close>

text \<open>
  Five requests and a restart after the start of the first process, with the text
  regions of each uploaded label in place of its bytes, and the store they leave.
\<close>

definition example_events :: "string list event list" where
  "example_events =
     [Request ''2024-05-01 10:00:00''
        (AddAppliance [(''name'', ''Fridge''), (''price'', ''7.5''), (''energy_rate'', ''0.4'')]
           (Some (''fridge.png'', [''Consumption'', ''250 kWh/year'']))),
      Request ''2024-05-01 10:05:00''
        (AddAppliance [(''name'', ''Oven''), (''price'', ''8''), (''energy_rate'', ''0.4'')]
           (Some (''oven.png'', [''Energy: 200 kWh'']))),
      Request ''2024-05-01 10:06:00'' ListAppliances,
      Restart,
      Request ''2024-05-01 10:10:00''
        (AddAppliance [(''name'', ''Heater''), (''price'', ''9''), (''energy_rate'', ''1'')]
           (Some (''heater.png'', [''100 kWh'']))),
      Request ''2024-05-01 10:15:00''
        (AddAppliance [(''name'', ''Lamp''), (''price'', ''2''), (''energy_rate'', ''0.4'')] None)]"

definition example_store :: database where
  "example_store =
     \<lparr>rows =
        [\<lparr>id_key = 1, name = Some ''Fridge'', energy_kwh = Some (Finite 250),
          price = Some (Finite 7.5), energy_rate = Some (Finite 0.4),
          timestamp = Some ''2024-05-01 10:00:00''\<rparr>,
         \<lparr>id_key = 2, name = Some ''Oven'', energy_kwh = Some (Finite 200),
          price = Some (Finite 8), energy_rate = Some (Finite 0.4),
          timestamp = Some ''2024-05-01 10:05:00''\<rparr>,
         \<lparr>id_key = 3, name = Some ''Heater'', energy_kwh = Some (Finite 100),
          price = Some (Finite 9), energy_rate = Some (Finite 1),
          timestamp = Some ''2024-05-01 10:10:00''\<rparr>,
         \<lparr>id_key = 4, name = Some ''Lamp'', energy_kwh = None, price = Some (Finite 2),
          energy_rate = Some (Finite 0.4), timestamp = Some ''2024-05-01 10:15:00''\<rparr>],
      seq = 4\<rparr>"

section \<open>The energy extractor uses the leftmost occurrence\<close>

lemma k_not_num_char: "\<not> num_char CHR ''k''" "\<not> is_space CHR ''k''" "\<not> is_digit CHR ''.''"
  by (simp_all add: num_char_def is_digit_def is_space_def)

lemma space_not_num_char: "is_space c \<Longrightarrow> \<not> num_char c"
  by (auto simp: num_char_def is_digit_def is_space_def)

lemma set_greedy: "set (greedy P lo s) = {n. lo \<le> n \<and> n \<le> length (takeWhile P s)}"
  by (auto simp: greedy_def)

lemma le_takeWhile_iff:
  "n \<le> length (takeWhile P s) \<longleftrightarrow> n \<le> length s \<and> list_all P (take n s)"
proof (induction s arbitrary: n)
  case Nil
  then show ?case by simp
next
  case (Cons x xs)
  then show ?case by (cases n) auto
qed

lemma takeWhile_stop:
  "list_all P xs \<Longrightarrow> (ys = [] \<or> \<not> P (hd ys)) \<Longrightarrow> takeWhile P (xs @ ys) = xs"
  by (induction xs) (auto simp: neq_Nil_conv, cases ys, auto)

lemma num_tail_stop:
  "list_all is_space ws \<Longrightarrow> \<not> num_char (hd (ws @ ''kw'' @ rest))"
  by (cases ws) (auto simp: k_not_num_char space_not_num_char)

lemma occ_unique:
  assumes "s = n1 @ w1 @ ''kw'' @ r1" "s = n2 @ w2 @ ''kw'' @ r2"
    and "list_all num_char n1" "list_all num_char n2"
    and "list_all is_space w1" "list_all is_space w2"
  shows "n1 = n2 \<and> w1 = w2 \<and> r1 = r2"
proof -
  have a: "takeWhile num_char s = n1"
    unfolding assms(1) using assms(3) num_tail_stop [OF assms(5), of r1]
    by (intro takeWhile_stop) auto
  have b: "takeWhile num_char s = n2"
    unfolding assms(2) using assms(4) num_tail_stop [OF assms(6), of r2]
    by (intro takeWhile_stop) auto
  from a b have n: "n1 = n2" by simp
  with assms(1,2) have eq: "w1 @ ''kw'' @ r1 = w2 @ ''kw'' @ r2" by simp
  have "takeWhile is_space (w1 @ ''kw'' @ r1) = w1"
    using assms(5) by (intro takeWhile_stop) (auto simp: k_not_num_char)
  moreover have "takeWhile is_space (w2 @ ''kw'' @ r2) = w2"
    using assms(6) by (intro takeWhile_stop) (auto simp: k_not_num_char)
  ultimately have w: "w1 = w2" using eq by simp
  with eq n show ?thesis by simp
qed

lemma decimal_num_char: "spec_decimal_number g \<Longrightarrow> list_all num_char g"
  by (auto simp: spec_decimal_number_def num_char_def list_all_iff)

lemma match_here_set:
  "(g, u) \<in> set (match_here s) \<longleftrightarrow>
     (\<exists>a b c w. a \<in> set (greedy is_digit 1 s) \<and> b \<in> set (optional_dot (drop a s)) \<and>
        c \<in> set (greedy is_digit 0 (drop (a + b) s)) \<and>
        w \<in> set (greedy is_space 0 (drop (a + b + c) s)) \<and>
        u \<in> set (units_at (drop (a + b + c + w) s)) \<and> g = take (a + b + c) s)"
  unfolding match_here_def by (simp add: image_iff Bex_def) blast

lemma units_at_mem:
  "u \<in> set (units_at t) \<longleftrightarrow> (u = ''kwh'' \<or> u = ''kw'') \<and> (\<exists>rest. t = u @ rest)"
proof -
  have "starts_with u t \<longleftrightarrow> (\<exists>rest. t = u @ rest)" for u
    unfolding starts_with_def
    by (metis append_eq_conv_conj append_take_drop_id)
  then show ?thesis by (auto simp: units_at_def)
qed

lemma path_decimal:
  assumes "a \<in> set (greedy is_digit 1 s)" "b \<in> set (optional_dot (drop a s))"
    and "c \<in> set (greedy is_digit 0 (drop (a + b) s))"
  shows "spec_decimal_number (take (a + b + c) s)"
proof -
  from assms(1) have a: "1 \<le> a" "a \<le> length s" "list_all is_digit (take a s)"
    by (auto simp: set_greedy le_takeWhile_iff)
  from assms(2) have b: "take b (drop a s) = [] \<or> take b (drop a s) = ''.''"
    by (auto simp: optional_dot_def starts_with_def split: if_splits)
  from assms(3) have c: "list_all is_digit (take c (drop (a + b) s))"
    by (auto simp: set_greedy le_takeWhile_iff)
  have split: "take (a + b + c) s = take a s @ take b (drop a s) @ take c (drop (a + b) s)"
    by (simp only: take_add append_assoc)
  from a have "take a s \<noteq> []" by auto
  with a b c split show ?thesis
    unfolding spec_decimal_number_def by blast
qed

lemma path_occurrence:
  assumes "a \<in> set (greedy is_digit 1 s)" "b \<in> set (optional_dot (drop a s))"
    and "c \<in> set (greedy is_digit 0 (drop (a + b) s))"
    and "w \<in> set (greedy is_space 0 (drop (a + b + c) s))"
    and "u \<in> set (units_at (drop (a + b + c + w) s))"
  shows "\<exists>rest. list_all is_space (take w (drop (a + b + c) s)) \<and>
           drop (a + b + c + w) s = u @ rest \<and>
           s = take (a + b + c) s @ take w (drop (a + b + c) s) @ u @ rest"
proof -
  from assms(4) have w: "list_all is_space (take w (drop (a + b + c) s))"
    by (auto simp: set_greedy le_takeWhile_iff)
  from assms(5) obtain rest where r: "drop (a + b + c + w) s = u @ rest"
    by (auto simp: units_at_mem)
  have "drop w (drop (a + b + c) s) = u @ rest"
    using r by (simp add: add.commute)
  then have "s = take (a + b + c) s @ take w (drop (a + b + c) s) @ u @ rest"
    by (metis append_take_drop_id)
  then show ?thesis using w r by blast
qed

lemma match_here_sound:
  assumes "(g, u) \<in> set (match_here s)"
  shows "spec_occurs_at s 0 g u"
proof -
  from assms obtain a b c w where p:
    "a \<in> set (greedy is_digit 1 s)" "b \<in> set (optional_dot (drop a s))"
    "c \<in> set (greedy is_digit 0 (drop (a + b) s))"
    "w \<in> set (greedy is_space 0 (drop (a + b + c) s))"
    "u \<in> set (units_at (drop (a + b + c + w) s))" "g = take (a + b + c) s"
    unfolding match_here_set by blast
  from path_occurrence [OF p(1-5)] path_decimal [OF p(1-3)] p(5,6)
  show ?thesis
    unfolding spec_occurs_at_def by (auto simp: units_at_mem)
qed

lemma match_here_complete:
  assumes "spec_occurs_at s 0 g u"
  shows "(g, u) \<in> set (match_here s)"
proof -
  from assms obtain ip dot fp ws rest where
    g: "g = ip @ dot @ fp" "ip \<noteq> []" "list_all is_digit ip" "dot = [] \<or> dot = ''.''"
       "list_all is_digit fp"
    and u: "u = ''kwh'' \<or> u = ''kw''"
    and s: "list_all is_space ws" "s = g @ ws @ u @ rest"
    unfolding spec_occurs_at_def spec_decimal_number_def drop_0 by blast
  let ?a = "length ip" and ?b = "length dot" and ?c = "length fp" and ?w = "length ws"
  have s': "s = ip @ dot @ fp @ ws @ u @ rest" using g(1) s(2) by simp
  have 1: "?a \<in> set (greedy is_digit 1 s)"
    using g(2,3) by (cases ip) (auto simp: set_greedy le_takeWhile_iff s')
  have 2: "?b \<in> set (optional_dot (drop ?a s))"
    using g(4) by (auto simp: optional_dot_def starts_with_def s')
  have 3: "?c \<in> set (greedy is_digit 0 (drop (?a + ?b) s))"
    using g(5) by (auto simp: set_greedy le_takeWhile_iff s')
  have 4: "?w \<in> set (greedy is_space 0 (drop (?a + ?b + ?c) s))"
    using s(1) by (auto simp: set_greedy le_takeWhile_iff s')
  have 5: "u \<in> set (units_at (drop (?a + ?b + ?c + ?w) s))"
    using u by (auto simp: units_at_mem s')
  have 6: "g = take (?a + ?b + ?c) s"
    by (simp add: s' g(1))
  from 1 2 3 4 5 6 show ?thesis unfolding match_here_set by blast
qed

lemma hd_concat_map:
  "(\<And>x. x \<in> set xs \<Longrightarrow> f x = [] \<or> hd (f x) = h) \<Longrightarrow>
   concat (map f xs) = [] \<or> hd (concat (map f xs)) = h"
proof (induction xs)
  case Nil
  then show ?case by simp
next
  case (Cons x xs)
  from Cons.prems have "f x = [] \<or> hd (f x) = h" by simp
  moreover from Cons have "concat (map f xs) = [] \<or> hd (concat (map f xs)) = h" by simp
  ultimately show ?case by (cases "f x") auto
qed

lemma units_at_kw: "units_at (CHR ''k'' # CHR ''w'' # rest) = (if starts_with ''h'' rest then [''kwh'', ''kw''] else [''kw''])"
  by (cases rest) (auto simp: units_at_def starts_with_def)

lemma units_at_nonempty: "units_at t \<noteq> [] \<Longrightarrow> ''kw'' \<in> set (units_at t)"
proof -
  assume "units_at t \<noteq> []"
  then obtain u where "u \<in> set (units_at t)" by (cases "units_at t") auto
  then show ?thesis by (auto simp: units_at_mem)
qed

lemma match_here_hd:
  assumes s: "s = g @ ws @ ''kw'' @ rest" and g: "spec_decimal_number g"
    and ws: "list_all is_space ws"
  shows "match_here s = [] \<or>
         hd (match_here s) = (g, if starts_with ''h'' rest then ''kwh'' else ''kw'')"
  unfolding match_here_def
proof (rule hd_concat_map, rule hd_concat_map, rule hd_concat_map, rule hd_concat_map)
  fix a b c w
  assume p: "a \<in> set (greedy is_digit 1 s)" "b \<in> set (optional_dot (drop a s))"
    "c \<in> set (greedy is_digit 0 (drop (a + b) s))"
    "w \<in> set (greedy is_space 0 (drop (a + b + c) s))"
  let ?h = "(g, if starts_with ''h'' rest then ''kwh'' else ''kw'')"
  let ?blk = "map (Pair (take (a + b + c) s)) (units_at (drop (a + b + c + w) s))"
  show "?blk = [] \<or> hd ?blk = ?h"
  proof (cases "units_at (drop (a + b + c + w) s) = []")
    case True
    then show ?thesis by simp
  next
    case False
    then have kw: "''kw'' \<in> set (units_at (drop (a + b + c + w) s))"
      by (rule units_at_nonempty)
    from path_occurrence [OF p kw] obtain rest' where
      o: "list_all is_space (take w (drop (a + b + c) s))"
         "drop (a + b + c + w) s = ''kw'' @ rest'"
         "s = take (a + b + c) s @ take w (drop (a + b + c) s) @ ''kw'' @ rest'"
      by blast
    have nc: "list_all num_char (take (a + b + c) s)"
      by (rule decimal_num_char [OF path_decimal [OF p(1-3)]])
    from occ_unique [OF o(3) s nc decimal_num_char [OF g] o(1) ws]
    have e: "take (a + b + c) s = g" "take w (drop (a + b + c) s) = ws" "rest' = rest"
      by simp_all
    from o(2) e(3) have "drop (a + b + c + w) s = ''kw'' @ rest"
      by simp
    then show ?thesis
      by (simp add: units_at_kw e(1))
  qed
qed

lemma re_search_here: "match_here s \<noteq> [] \<Longrightarrow> re_search s = Some (hd (match_here s))"
  by (cases s; cases "match_here s") auto

lemma re_search_skip:
  "(\<And>q. q < p \<Longrightarrow> match_here (drop q s) = []) \<Longrightarrow> p \<le> length s \<Longrightarrow>
   re_search s = re_search (drop p s)"
proof (induction s arbitrary: p)
  case Nil
  then show ?case by simp
next
  case (Cons x xs)
  show ?case
  proof (cases p)
    case 0
    then show ?thesis by simp
  next
    case (Suc p')
    with Cons.prems(1) [of 0] have h: "match_here (x # xs) = []" by simp
    have "match_here (drop q xs) = []" if "q < p'" for q
      using Cons.prems(1) [of "Suc q"] that Suc by simp
    with Cons.IH [of p'] Cons.prems(2) Suc have "re_search xs = re_search (drop p' xs)"
      by simp
    with h Suc show ?thesis by simp
  qed
qed

lemma re_search_none: "(\<And>q. match_here (drop q s) = []) \<Longrightarrow> re_search s = None"
proof (induction s)
  case Nil
  from Nil [of 0] show ?case by simp
next
  case (Cons x xs)
  from Cons.prems [of 0] have h: "match_here (x # xs) = []" by simp
  have "match_here (drop q xs) = []" for q
    using Cons.prems [of "Suc q"] by simp
  with Cons.IH h show ?case by simp
qed

lemma is_digit_cases:
  "is_digit c \<longleftrightarrow> c = CHR ''0'' \<or> c = CHR ''1'' \<or> c = CHR ''2'' \<or> c = CHR ''3'' \<or>
     c = CHR ''4'' \<or> c = CHR ''5'' \<or> c = CHR ''6'' \<or> c = CHR ''7'' \<or> c = CHR ''8'' \<or> c = CHR ''9''"
  by (simp add: is_digit_def)

lemma digit_not_space: "is_digit c \<Longrightarrow> \<not> is_space c"
  unfolding is_digit_cases by (elim disjE) (simp_all add: is_space_def)

lemma digit_lower: "is_digit c \<Longrightarrow> lower_char c = c"
  unfolding is_digit_cases by (elim disjE) (simp_all add: lower_char_def)

lemma digit_neq: "is_digit c \<Longrightarrow> c \<noteq> CHR ''_'' \<and> c \<noteq> CHR ''-'' \<and> c \<noteq> CHR ''+'' \<and>
     c \<noteq> CHR ''.'' \<and> c \<noteq> CHR ''i'' \<and> c \<noteq> CHR ''n''"
  unfolding is_digit_cases by (elim disjE) simp_all

lemmas digit_facts = digit_not_space digit_lower digit_neq

lemma num_char_facts:
  assumes "num_char c"
  shows "\<not> is_space c \<and> c \<noteq> CHR ''_''"
proof (cases "is_digit c")
  case True
  then show ?thesis using digit_not_space digit_neq by blast
next
  case False
  with assms have "c = CHR ''.''" by (simp add: num_char_def)
  then show ?thesis by (simp add: is_space_def)
qed

lemma float_space_is_space: "is_float_space c \<Longrightarrow> is_space c"
  by (auto simp: is_float_space_def is_space_def)

lemma strip_underscores_plain:
  "list_all num_char g \<Longrightarrow> prev \<noteq> CHR ''_'' \<Longrightarrow> strip_underscores prev g = Some g"
proof (induction g arbitrary: prev)
  case Nil
  then show ?case by simp
next
  case (Cons c cs)
  from Cons.prems(1) have c: "c \<noteq> CHR ''_''" and cs: "list_all num_char cs"
    using num_char_facts [of c] by simp_all
  from Cons.IH [OF cs c] have "strip_underscores c cs = Some cs" .
  with c Cons.prems(2) show ?case by simp
qed

lemma py_strip_plain:
  assumes "g \<noteq> []" "list_all num_char g"
  shows "py_strip g = g"
proof -
  from assms have "hd g \<in> set g" "last g \<in> set g" by simp_all
  with assms(2) have "num_char (hd g)" "num_char (last g)"
    unfolding list_all_iff by blast+
  then have "\<not> is_float_space (hd g)" "\<not> is_float_space (last g)"
    using num_char_facts float_space_is_space by blast+
  with assms(1) have "dropWhile is_float_space g = g" "dropWhile is_float_space (rev g) = rev g"
    by (simp_all add: dropWhile_eq_self_iff hd_rev)
  then show ?thesis by (simp add: py_strip_def)
qed

lemma takeWhile_all: "list_all P xs \<Longrightarrow> takeWhile P xs = xs \<and> dropWhile P xs = []"
  by (induction xs) auto

lemma py_float_decimal:
  assumes "ip \<noteq> []" "list_all is_digit ip" "dot = [] \<or> dot = ''.''" "list_all is_digit fp"
  shows "py_float (ip @ dot @ fp) =
           Inr (float_of_real
                  (real (digits_val (ip @ fp)) / 10 ^ (if dot = [] then 0 else length fp)))"
proof -
  let ?g = "ip @ dot @ fp"
  have nc: "list_all num_char ?g" and ne: "?g \<noteq> []"
    using assms by (auto simp: num_char_def list_all_iff)
  obtain d ds where ip: "ip = d # ds" and d: "is_digit d"
    using assms(1,2) by (cases ip) auto
  have 1: "strip_underscores (CHR 0x00) (py_strip ?g) = Some ?g"
    using py_strip_plain [OF ne nc] strip_underscores_plain [OF nc] by simp
  have 2: "split_sign ?g = (False, ?g)"
    using d by (simp add: ip split_sign_def digit_facts)
  have 3: "py_lower ?g \<notin> set [''inf'', ''infinity'', ''nan'']"
    using d by (auto simp: ip py_lower_def digit_facts)
  show ?thesis
  proof (cases "dot = []")
    case True
    with assms have all: "list_all is_digit (ip @ fp)" by simp
    have 4: "takeWhile is_digit (ip @ fp) = ip @ fp" "dropWhile is_digit (ip @ fp) = []"
      using takeWhile_all [OF all] by simp_all
    from 1 2 3 True have 5: "strip_underscores (CHR 0x00) (py_strip (ip @ fp)) = Some (ip @ fp)"
      "split_sign (ip @ fp) = (False, ip @ fp)"
      "py_lower (ip @ fp) \<notin> set [''inf'', ''infinity'', ''nan'']"
      by simp_all
    have "py_float (ip @ fp) = Inr (float_of_real (real (digits_val (ip @ fp))))"
      unfolding py_float_def using assms(1) 5(3)
      by (simp add: 4 5(1,2) parse_exponent_def Let_def)
    with True show ?thesis by simp
  next
    case False
    with assms(3) have dot: "dot = ''.''" by simp
    have 4: "takeWhile is_digit ?g = ip" "dropWhile is_digit ?g = CHR ''.'' # fp"
      using assms(2) by (simp_all add: dot takeWhile_append2 dropWhile_append2 list_all_iff digit_facts is_digit_def)
    have 5: "takeWhile is_digit fp = fp" "dropWhile is_digit fp = []"
      using takeWhile_all [OF assms(4)] by simp_all
    have "py_float ?g = Inr (float_of_real (real (digits_val (ip @ fp)) / 10 ^ length fp))"
      unfolding py_float_def using assms(1) 3
      by (simp add: 1 2 4 5 parse_exponent_def Let_def)
    with False show ?thesis by simp
  qed
qed

lemma float_of_real_nonneg:
  "0 \<le> x \<Longrightarrow> float_of_real x = PosInf \<or> (\<exists>y. float_of_real x = Finite y \<and> 0 \<le> y)"
  by (simp add: float_of_real_def)

lemma py_float_spec_decimal:
  assumes "spec_decimal_number g"
  shows "\<exists>v. py_float g = Inr v \<and> (v = PosInf \<or> (\<exists>x. v = Finite x \<and> 0 \<le> x))"
proof -
  from assms obtain ip dot fp where
    g: "g = ip @ dot @ fp" "ip \<noteq> []" "list_all is_digit ip" "dot = [] \<or> dot = ''.''"
       "list_all is_digit fp"
    unfolding spec_decimal_number_def by blast
  have "0 \<le> real (digits_val (ip @ fp)) / 10 ^ (if dot = [] then 0 else length fp)"
    by simp
  from float_of_real_nonneg [OF this] py_float_decimal [OF g(2-5)] g(1)
  show ?thesis by simp
qed

lemma occurs_at_drop: "spec_occurs_at text p g u \<longleftrightarrow> spec_occurs_at (drop p text) 0 g u"
  by (simp add: spec_occurs_at_def)

lemma match_here_Nil_iff: "match_here s = [] \<longleftrightarrow> (\<forall>g u. \<not> spec_occurs_at s 0 g u)"
proof
  assume "match_here s = []"
  then show "\<forall>g u. \<not> spec_occurs_at s 0 g u"
    using match_here_complete by fastforce
next
  assume a: "\<forall>g u. \<not> spec_occurs_at s 0 g u"
  show "match_here s = []"
  proof (cases "match_here s")
    case Nil
    then show ?thesis .
  next
    case (Cons m ms)
    then have "(fst m, snd m) \<in> set (match_here s)" by simp
    from match_here_sound [OF this] a show ?thesis by blast
  qed
qed

lemma re_search_leftmost:
  assumes occ: "spec_occurs_at text p g ''kw''"
    and left: "\<And>q n u. q < p \<Longrightarrow> \<not> spec_occurs_at text q n u"
  shows "re_search text =
           Some (g, if spec_occurs_at text p g ''kwh'' then ''kwh'' else ''kw'')"
proof -
  from occ obtain ws rest where
    d: "spec_decimal_number g" "list_all is_space ws" "drop p text = g @ ws @ ''kw'' @ rest"
    unfolding spec_occurs_at_def by blast
  from d(3) have "drop p text \<noteq> []" by simp
  then have p: "p \<le> length text" by simp
  have none: "match_here (drop q text) = []" if "q < p" for q
    using left [OF that] by (simp add: match_here_Nil_iff occurs_at_drop [symmetric])
  have ne: "match_here (drop p text) \<noteq> []"
    using occ by (auto simp: match_here_Nil_iff occurs_at_drop [symmetric])
  have kwh: "spec_occurs_at text p g ''kwh'' \<longleftrightarrow> starts_with ''h'' rest"
  proof
    assume "spec_occurs_at text p g ''kwh''"
    then obtain ws' rest' where
      e: "list_all is_space ws'" "drop p text = g @ ws' @ ''kw'' @ (''h'' @ rest')"
      unfolding spec_occurs_at_def by auto
    from occ_unique [OF d(3) e(2) decimal_num_char [OF d(1)] decimal_num_char [OF d(1)] d(2) e(1)]
    show "starts_with ''h'' rest" by (simp add: starts_with_def)
  next
    assume "starts_with ''h'' rest"
    then obtain rest' where "rest = ''h'' @ rest'"
      by (cases rest) (auto simp: starts_with_def)
    with d have "drop p text = g @ ws @ ''kwh'' @ rest'" by simp
    with d(1,2) show "spec_occurs_at text p g ''kwh''"
      unfolding spec_occurs_at_def by blast
  qed
  from match_here_hd [OF d(3) d(1) d(2)] ne kwh
  have "hd (match_here (drop p text)) =
          (g, if spec_occurs_at text p g ''kwh'' then ''kwh'' else ''kw'')"
    by simp
  with re_search_skip [of p "text", OF none p] re_search_here [OF ne]
  show ?thesis by simp
qed

lemma re_search_no_occurrence:
  assumes "\<And>p n u. \<not> spec_occurs_at text p n u"
  shows "re_search text = None"
proof (rule re_search_none)
  fix q
  show "match_here (drop q text) = []"
    using assms by (simp add: match_here_Nil_iff occurs_at_drop [symmetric])
qed

lemma kwh_is_kw: "spec_occurs_at text p g ''kwh'' \<Longrightarrow> spec_occurs_at text p g ''kw''"
proof -
  assume "spec_occurs_at text p g ''kwh''"
  then obtain ws rest where
    "spec_decimal_number g" "list_all is_space ws" "drop p text = g @ ws @ ''kw'' @ (''h'' @ rest)"
    unfolding spec_occurs_at_def by auto
  then show ?thesis unfolding spec_occurs_at_def by blast
qed

lemma occurrence_by_match:
  "(g, u) \<in> set (match_here (drop p text)) \<Longrightarrow> spec_occurs_at text p g u"
  using match_here_sound [of g u "drop p text"] by (simp add: occurs_at_drop [symmetric])

lemma no_occurrence_by_match:
  "(g, u) \<notin> set (match_here (drop p text)) \<Longrightarrow> \<not> spec_occurs_at text p g u"
  using match_here_complete [of "drop p text" g u] by (auto simp: occurs_at_drop [symmetric])

lemma no_occurrence_before:
  assumes "list_all (\<lambda>q. match_here (drop q text) = []) [0..<p]" and "q < p"
  shows "\<not> spec_occurs_at text q n u"
proof -
  from assms have "match_here (drop q text) = []" by (simp add: list_all_iff)
  then show ?thesis by (simp add: match_here_Nil_iff occurs_at_drop [symmetric])
qed

lemma no_occurrence_anywhere:
  assumes "list_all (\<lambda>q. match_here (drop q text) = []) [0..<Suc (length text)]"
  shows "\<not> spec_occurs_at text p n u"
proof (cases "p \<le> length text")
  case True
  with assms show ?thesis by (intro no_occurrence_before [of "text" "Suc (length text)"]) simp_all
next
  case False
  then have "drop p text = drop (length text) text" by simp
  moreover have "\<not> spec_occurs_at text (length text) n u"
    using assms by (intro no_occurrence_before [of "text" "Suc (length text)"]) simp_all
  ultimately show ?thesis by (simp add: spec_occurs_at_def)
qed


text \<open>
  Claim C1. For every recognised text: if the text holds no decimal number followed by
  optional whitespace and \<^verbatim>\<open>kwh\<close> or \<^verbatim>\<open>kw\<close>, the extractor returns no value and
  the text; otherwise it uses the leftmost such occurrence, and returns the number
  unchanged when the unit is \<^verbatim>\<open>kwh\<close> and the number times \<open>24 * 365 / 1000\<close> when it
  is \<^verbatim>\<open>kw\<close>, together with the text.
\<close>

theorem extract_energy_leftmost_match:
  assumes "readtext image_bytes = Inr results"
    and "text = py_lower (py_join '' '' results)"
  shows
    "((\<forall>p num u. \<not> spec_occurs_at text p num u) \<longrightarrow>
        extract_energy_from_image readtext image_bytes = Inr (None, text)) \<and>
     (\<forall>p num. spec_occurs_at text p num ''kwh'' \<and>
        (\<forall>q n u. q < p \<longrightarrow> \<not> spec_occurs_at text q n u) \<longrightarrow>
        (\<exists>v. py_float num = Inr v \<and>
           extract_energy_from_image readtext image_bytes = Inr (Some v, text))) \<and>
     (\<forall>p num. spec_occurs_at text p num ''kw'' \<and> \<not> spec_occurs_at text p num ''kwh'' \<and>
        (\<forall>q n u. q < p \<longrightarrow> \<not> spec_occurs_at text q n u) \<longrightarrow>
        (\<exists>v. py_float num = Inr v \<and>
           extract_energy_from_image readtext image_bytes =
             Inr (Some (fmul v (Finite (24 * 365 / 1000))), text)))"
proof (intro conjI allI impI)
  assume "\<forall>p num u. \<not> spec_occurs_at text p num u"
  then have "re_search text = None" by (intro re_search_no_occurrence) blast
  then show "extract_energy_from_image readtext image_bytes = Inr (None, text)"
    by (simp add: extract_energy_from_image_def assms)
next
  fix p num
  assume a: "spec_occurs_at text p num ''kwh'' \<and>
    (\<forall>q n u. q < p \<longrightarrow> \<not> spec_occurs_at text q n u)"
  then have s: "re_search text = Some (num, ''kwh'')"
    using re_search_leftmost [of "text" p num] kwh_is_kw [of "text" p num] by simp
  from a obtain v where v: "py_float num = Inr v"
    using py_float_spec_decimal [of num] unfolding spec_occurs_at_def by blast
  with s have "extract_energy_from_image readtext image_bytes = Inr (Some v, text)"
    by (simp add: extract_energy_from_image_def assms(1) assms(2) [symmetric])
  with v show "\<exists>v. py_float num = Inr v \<and>
           extract_energy_from_image readtext image_bytes = Inr (Some v, text)"
    by blast
next
  fix p num
  assume a: "spec_occurs_at text p num ''kw'' \<and> \<not> spec_occurs_at text p num ''kwh'' \<and>
    (\<forall>q n u. q < p \<longrightarrow> \<not> spec_occurs_at text q n u)"
  then have s: "re_search text = Some (num, ''kw'')"
    using re_search_leftmost [of "text" p num] by simp
  from a obtain v where v: "py_float num = Inr v"
    using py_float_spec_decimal [of num] unfolding spec_occurs_at_def by blast
  with s have "extract_energy_from_image readtext image_bytes =
      Inr (Some (fmul v (Finite (24 * 365 / 1000))), text)"
    by (simp add: extract_energy_from_image_def assms(1) assms(2) [symmetric])
  with v show "\<exists>v. py_float num = Inr v \<and>
           extract_energy_from_image readtext image_bytes =
             Inr (Some (fmul v (Finite (24 * 365 / 1000))), text)"
    by blast
qed

text \<open>
  The theorem at the two labels of the specification, \<^verbatim>\<open>consumption 250 kwh/year\<close>
  and \<^verbatim>\<open>rated 0.5 kw\<close>, and at a label with no unit.
\<close>

theorem extract_energy_leftmost_match_witness:
  "(spec_occurs_at ''consumption 250 kwh/year'' 12 ''250'' ''kwh'' \<and>
    \<not> (\<exists>q n u. q < 12 \<and> spec_occurs_at ''consumption 250 kwh/year'' q n u) \<and>
    extract_energy_from_image Inr [''Consumption'', ''250 kWh/year''] =
      Inr (Some (Finite 250), ''consumption 250 kwh/year'')) \<and>
   (spec_occurs_at ''rated 0.5 kw'' 6 ''0.5'' ''kw'' \<and>
    \<not> spec_occurs_at ''rated 0.5 kw'' 6 ''0.5'' ''kwh'' \<and>
    \<not> (\<exists>q n u. q < 6 \<and> spec_occurs_at ''rated 0.5 kw'' q n u) \<and>
    extract_energy_from_image Inr [''Rated 0.5 kW''] =
      Inr (Some (Finite 4.38), ''rated 0.5 kw'')) \<and>
   (\<not> (\<exists>p n u. spec_occurs_at ''energy class a+'' p n u) \<and>
    extract_energy_from_image Inr [''Energy class A+''] = Inr (None, ''energy class a+''))"
proof (intro conjI)
  let ?t1 = "''consumption 250 kwh/year''" and ?t2 = "''rated 0.5 kw''"
  let ?t3 = "''energy class a+''"
  have t1: "?t1 = py_lower (py_join '' '' [''Consumption'', ''250 kWh/year''])" by code_simp
  have t2: "?t2 = py_lower (py_join '' '' [''Rated 0.5 kW''])" by code_simp
  have t3: "?t3 = py_lower (py_join '' '' [''Energy class A+''])" by code_simp
  have "(''250'', ''kwh'') \<in> set (match_here (drop 12 ?t1))" by code_simp
  then show o1: "spec_occurs_at ?t1 12 ''250'' ''kwh''" by (rule occurrence_by_match)
  have "list_all (\<lambda>q. match_here (drop q ?t1) = []) [0..<12]" by code_simp
  then have l1: "\<forall>q n u. q < 12 \<longrightarrow> \<not> spec_occurs_at ?t1 q n u"
    using no_occurrence_before by blast
  then show "\<not> (\<exists>q n u. q < 12 \<and> spec_occurs_at ?t1 q n u)" by blast
  have "(''0.5'', ''kw'') \<in> set (match_here (drop 6 ?t2))" by code_simp
  then show o2: "spec_occurs_at ?t2 6 ''0.5'' ''kw''" by (rule occurrence_by_match)
  have "(''0.5'', ''kwh'') \<notin> set (match_here (drop 6 ?t2))" by code_simp
  then show n2: "\<not> spec_occurs_at ?t2 6 ''0.5'' ''kwh''" by (rule no_occurrence_by_match)
  have "list_all (\<lambda>q. match_here (drop q ?t2) = []) [0..<6]" by code_simp
  then have l2: "\<forall>q n u. q < 6 \<longrightarrow> \<not> spec_occurs_at ?t2 q n u"
    using no_occurrence_before by blast
  then show "\<not> (\<exists>q n u. q < 6 \<and> spec_occurs_at ?t2 q n u)" by blast
  have "list_all (\<lambda>q. match_here (drop q ?t3) = []) [0..<Suc (length ?t3)]" by code_simp
  then have l3: "\<forall>p n u. \<not> spec_occurs_at ?t3 p n u"
    using no_occurrence_anywhere by blast
  then show "\<not> (\<exists>p n u. spec_occurs_at ?t3 p n u)" by blast
  have v1: "py_float ''250'' = Inr (Finite 250)" by code_simp
  have v2: "py_float ''0.5'' = Inr (Finite (1 / 2))" by code_simp
  have v3: "fmul (Finite (1 / 2)) (Finite (24 * 365 / 1000)) = Finite 4.38" by code_simp
  note th1 = extract_energy_leftmost_match
    [of Inr "[''Consumption'', ''250 kWh/year'']" _ ?t1, OF refl t1]
  have "\<exists>v. py_float ''250'' = Inr v \<and>
    extract_energy_from_image Inr [''Consumption'', ''250 kWh/year''] = Inr (Some v, ?t1)"
    by (rule th1 [THEN conjunct2, THEN conjunct1, rule_format, OF conjI [OF o1 l1]])
  then show "extract_energy_from_image Inr [''Consumption'', ''250 kWh/year''] =
      Inr (Some (Finite 250), ?t1)"
    unfolding v1 by (elim exE conjE) simp
  note th2 = extract_energy_leftmost_match [of Inr "[''Rated 0.5 kW'']" _ ?t2, OF refl t2]
  have "\<exists>v. py_float ''0.5'' = Inr v \<and>
    extract_energy_from_image Inr [''Rated 0.5 kW''] =
      Inr (Some (fmul v (Finite (24 * 365 / 1000))), ?t2)"
    by (rule th2 [THEN conjunct2, THEN conjunct2, rule_format, OF conjI [OF o2 conjI [OF n2 l2]]])
  then show "extract_energy_from_image Inr [''Rated 0.5 kW''] = Inr (Some (Finite 4.38), ?t2)"
    unfolding v2 using v3 by (elim exE conjE) simp
  note th3 = extract_energy_leftmost_match [of Inr "[''Energy class A+'']" _ ?t3, OF refl t3]
  show "extract_energy_from_image Inr [''Energy class A+''] = Inr (None, ?t3)"
    by (rule th3 [THEN conjunct1, THEN mp, OF l3])
qed

section \<open>The store under the requests of the API\<close>

lemma fold_max_ge: "m \<le> fold max xs (m::int) \<and> (\<forall>x\<in>set xs. x \<le> fold max xs m)"
proof (induction xs arbitrary: m)
  case Nil
  then show ?case by simp
next
  case (Cons x xs)
  from Cons.IH [of "max x m"] show ?case by auto
qed

lemma next_key_gt:
  "seq db < next_key db" "r \<in> set (rows db) \<Longrightarrow> id_key r < next_key db" "0 < next_key db"
  using fold_max_ge [of 0 "map id_key (rows db)"] by (auto simp: next_key_def)

lemma overflow_bound_eq: "overflow_bound = 2 ^ 1024 - 2 ^ 970"
  by (simp add: overflow_bound_def)

lemma underflow_bound_eq: "underflow_bound = 1 / 2 ^ 1075"
  by (simp add: underflow_bound_def)

lemma sql_insert_Inr:
  assumes "sql_insert now nm kwh pr rate db = Inr db'"
  shows "rows db' = rows db @
           [\<lparr>id_key = next_key db, name = nm, energy_kwh = Option.bind kwh sql_real,
             price = sql_real pr, energy_rate = sql_real rate, timestamp = Some now\<rparr>]"
    and "seq db' = next_key db"
  using assms by (auto simp: sql_insert_def split: if_splits)

lemma add_appliance_Inr:
  assumes "add_appliance readtext now form image_file db = Inr (resp, db')"
  shows "\<exists>pr rate kwh.
    float_field form ''price'' = Inr pr \<and> float_field form ''energy_rate'' = Inr rate \<and>
    sql_insert now (map_of form ''name'') kwh pr rate db = Inr db' \<and>
    resp = (200, Added (map_of form ''name'') pr kwh rate) \<and>
    (image_file = None \<longrightarrow> kwh = None) \<and>
    (\<forall>b. image_file = Some ([], b) \<longrightarrow> kwh = None) \<and>
    (\<forall>fn b. image_file = Some (fn, b) \<and> fn \<noteq> [] \<longrightarrow>
        (\<exists>t. extract_energy_from_image readtext b = Inr (kwh, t)))"
  using assms unfolding add_appliance_def Let_def
  by (auto split: sum.splits option.splits prod.splits if_splits)

lemma re_search_Some:
  "re_search s = Some m \<Longrightarrow> \<exists>q. m \<in> set (match_here (drop q s))"
proof (induction s)
  case Nil
  then show ?case by (cases "match_here []") (auto intro: exI [of _ 0])
next
  case (Cons x xs)
  show ?case
  proof (cases "match_here (x # xs)")
    case Nil
    with Cons.prems have "re_search xs = Some m" by simp
    from Cons.IH [OF this] obtain q where "m \<in> set (match_here (drop q xs))" ..
    then have "m \<in> set (match_here (drop (Suc q) (x # xs)))" by simp
    then show ?thesis ..
  next
    case (Cons m' ms)
    with Cons.prems have "m \<in> set (match_here (drop 0 (x # xs)))" by simp
    then show ?thesis ..
  qed
qed

lemma fmul_nonneg:
  assumes "v = PosInf \<or> (\<exists>x. v = Finite x \<and> 0 \<le> x)" and "0 < c"
  shows "fmul v (Finite c) = PosInf \<or> (\<exists>x. fmul v (Finite c) = Finite x \<and> 0 \<le> x)"
proof (cases "v = PosInf")
  case True
  with assms(2) show ?thesis by (simp add: fmul_def fsign_def)
next
  case False
  with assms(1) obtain x where x: "v = Finite x" "0 \<le> x" by blast
  with assms(2) have "0 \<le> x * c" by simp
  from float_of_real_nonneg [OF this] x(1) show ?thesis by (simp add: fmul_def)
qed

lemma extract_energy_nonneg:
  assumes "extract_energy_from_image readtext b = Inr (Some v, t)"
  shows "v = PosInf \<or> (\<exists>x. v = Finite x \<and> 0 \<le> x)"
proof -
  from assms obtain results g u w where
    s: "re_search (py_lower (py_join '' '' results)) = Some (g, u)"
    and w: "py_float g = Inr w" and v: "v = fmul w (Finite (24 * 365 / 1000)) \<or> v = w"
    unfolding extract_energy_from_image_def Let_def
    by (auto split: sum.splits option.splits prod.splits if_splits)
  from re_search_Some [OF s] obtain q where
    "(g, u) \<in> set (match_here (drop q (py_lower (py_join '' '' results))))" ..
  from match_here_sound [OF this] have "spec_decimal_number g"
    by (simp add: spec_occurs_at_def)
  from py_float_spec_decimal [OF this] w
  have n: "w = PosInf \<or> (\<exists>x. w = Finite x \<and> 0 \<le> x)" by auto
  from v show ?thesis
  proof
    assume "v = fmul w (Finite (24 * 365 / 1000))"
    with fmul_nonneg [OF n, of "24 * 365 / 1000"] show ?thesis by simp
  next
    assume "v = w"
    with n show ?thesis by simp
  qed
qed

lemma run_Nil: "run readtext [] = \<lparr>rows = [], seq = 0\<rparr>"
  by (simp add: run_def init_db_def)

lemma run_snoc: "run readtext (evs @ [e]) = step readtext (run readtext evs) e"
  by (simp add: run_def)

lemma step_cases:
  obtains (same) "step readtext db e = db"
  | (added) now form image_file resp where
      "e = Request now (AddAppliance form image_file)"
      "add_appliance readtext now form image_file db = Inr (resp, step readtext db e)"
proof (cases e)
  case Restart
  then have "step readtext db e = db" by (simp add: init_db_def)
  then show ?thesis by (rule same)
next
  case (Request now req)
  show ?thesis
  proof (cases req)
    case (AddAppliance form image_file)
    show ?thesis
    proof (cases "add_appliance readtext now form image_file db")
      case (Inl err)
      with Request AddAppliance have "step readtext db e = db" by simp
      then show ?thesis by (rule same)
    next
      case (Inr p)
      with Request AddAppliance have
        "add_appliance readtext now form image_file db = Inr (fst p, step readtext db e)"
        by (cases p) simp
      with Request AddAppliance show ?thesis by (intro added) simp_all
    qed
  qed (use Request in \<open>auto intro: same\<close>)
qed

lemma added_row:
  assumes "add_appliance readtext now form image_file db = Inr (resp, db')"
  obtains r where "rows db' = rows db @ [r]" "id_key r = next_key db" "seq db' = next_key db"
    "energy_kwh r = None \<or> energy_kwh r = Some PosInf \<or>
     (\<exists>e. energy_kwh r = Some (Finite e) \<and> 0 \<le> e)"
proof -
  from add_appliance_Inr [OF assms] obtain pr rate kwh where
    i: "sql_insert now (map_of form ''name'') kwh pr rate db = Inr db'"
    and n: "image_file = None \<longrightarrow> kwh = None" "\<forall>b. image_file = Some ([], b) \<longrightarrow> kwh = None"
      "\<forall>fn b. image_file = Some (fn, b) \<and> fn \<noteq> [] \<longrightarrow>
        (\<exists>t. extract_energy_from_image readtext b = Inr (kwh, t))"
    by blast
  have "kwh = None \<or> kwh = Some PosInf \<or> (\<exists>e. kwh = Some (Finite e) \<and> 0 \<le> e)"
  proof (cases image_file)
    case None
    with n(1) show ?thesis by simp
  next
    case (Some f)
    obtain fn b where f: "f = (fn, b)" by (cases f)
    show ?thesis
    proof (cases "fn = []")
      case True
      with n(2) Some f show ?thesis by simp
    next
      case False
      with n(3) Some f obtain t where "extract_energy_from_image readtext b = Inr (kwh, t)"
        by blast
      then show ?thesis using extract_energy_nonneg [of readtext b _ t] by (cases kwh) auto
    qed
  qed
  then have "Option.bind kwh sql_real = None \<or> Option.bind kwh sql_real = Some PosInf \<or>
     (\<exists>e. Option.bind kwh sql_real = Some (Finite e) \<and> 0 \<le> e)"
    by (auto simp: sql_real_def)
  with sql_insert_Inr [OF i] show ?thesis
    by (intro that [of "\<lparr>id_key = next_key db, name = map_of form ''name'',
      energy_kwh = Option.bind kwh sql_real, price = sql_real pr, energy_rate = sql_real rate,
      timestamp = Some now\<rparr>"]) simp_all
qed

lemma step_rows_append: "\<exists>rest. rows (step readtext db e) = rows db @ rest"
proof (cases rule: step_cases [of readtext db e])
  case same
  then show ?thesis by simp
next
  case (added now form image_file resp)
  from added(2) obtain r where "rows (step readtext db e) = rows db @ [r]"
    by (rule added_row)
  then show ?thesis ..
qed

lemma run_rows_append: "\<exists>rest. rows (run readtext (evs0 @ evs1)) = rows (run readtext evs0) @ rest"
proof (induction evs1 rule: rev_induct)
  case Nil
  then show ?case by simp
next
  case (snoc e evs1)
  then obtain rest where
    r: "rows (run readtext (evs0 @ evs1)) = rows (run readtext evs0) @ rest" ..
  obtain rest' where
    "rows (step readtext (run readtext (evs0 @ evs1)) e) =
       rows (run readtext (evs0 @ evs1)) @ rest'"
    using step_rows_append by blast
  with r have "rows (run readtext (evs0 @ evs1 @ [e])) = rows (run readtext evs0) @ rest @ rest'"
    using run_snoc [of readtext "evs0 @ evs1" e] by simp
  then show ?case by blast
qed

lemma run_keys_sorted: "sorted_wrt (<) (map id_key (rows (run readtext evs)))"
proof (induction evs rule: rev_induct)
  case Nil
  then show ?case by (simp add: run_Nil)
next
  case (snoc e evs)
  let ?db = "run readtext evs"
  show ?case
  proof (cases rule: step_cases [of readtext ?db e])
    case same
    with snoc show ?thesis by (simp add: run_snoc)
  next
    case (added now form image_file resp)
    from added(2) obtain r where
      r: "rows (step readtext ?db e) = rows ?db @ [r]" "id_key r = next_key ?db"
      by (rule added_row)
    with snoc next_key_gt(2) [of _ ?db] show ?thesis
      by (simp add: run_snoc sorted_wrt_append)
  qed
qed

lemma run_energy_nonneg:
  "r \<in> set (rows (run readtext evs)) \<Longrightarrow>
   energy_kwh r = None \<or> energy_kwh r = Some PosInf \<or>
   (\<exists>e. energy_kwh r = Some (Finite e) \<and> 0 \<le> e)"
proof (induction evs arbitrary: r rule: rev_induct)
  case Nil
  then show ?case by (simp add: run_Nil)
next
  case (snoc e evs)
  let ?db = "run readtext evs"
  show ?case
  proof (cases rule: step_cases [of readtext ?db e])
    case same
    with snoc show ?thesis by (simp add: run_snoc)
  next
    case (added now form image_file resp)
    from added(2) obtain r' where
      r: "rows (step readtext ?db e) = rows ?db @ [r']"
      "energy_kwh r' = None \<or> energy_kwh r' = Some PosInf \<or>
       (\<exists>e. energy_kwh r' = Some (Finite e) \<and> 0 \<le> e)"
      by (rule added_row)
    from snoc.prems r(1) have "r \<in> set (rows ?db) \<or> r = r'"
      by (auto simp: run_snoc)
    then show ?thesis
    proof
      assume "r \<in> set (rows ?db)"
      then show ?thesis by (rule snoc.IH)
    next
      assume "r = r'"
      with r(2) show ?thesis by simp
    qed
  qed
qed

lemma sorted_keys_distinct: "sorted_wrt (<) (map id_key rs) \<Longrightarrow> distinct (map id_key rs)"
  by (simp add: strict_sorted_iff)

lemma example_run: "run Inr example_events = example_store"
  by code_simp


lemma example_add_kettle:
  "add_appliance Inr ''2024-05-02 09:00:00''
     [(''name'', ''Kettle''), (''price'', ''3.5''), (''energy_rate'', ''0.25'')] None
     (run Inr example_events) =
   Inr ((200, Added (Some ''Kettle'') (Finite 3.5) None (Finite 0.25)),
        \<lparr>rows = rows example_store @
           [\<lparr>id_key = 5, name = Some ''Kettle'', energy_kwh = None, price = Some (Finite 3.5),
             energy_rate = Some (Finite 0.25), timestamp = Some ''2024-05-02 09:00:00''\<rparr>],
         seq = 5\<rparr>)"
  by code_simp

lemma example_add_toaster:
  "add_appliance Inr ''2024-05-03 08:00:00'' [(''name'', ''Toaster''), (''price'', ''1'')]
     (Some (''toaster.png'', [''Rated 0.5 kW''])) (run Inr example_events) =
   Inr ((200, Added (Some ''Toaster'') (Finite 1) (Some (Finite 4.38)) (Finite 0)),
        \<lparr>rows = rows example_store @
           [\<lparr>id_key = 5, name = Some ''Toaster'', energy_kwh = Some (Finite 4.38),
             price = Some (Finite 1), energy_rate = Some (Finite 0),
             timestamp = Some ''2024-05-03 08:00:00''\<rparr>],
         seq = 5\<rparr>)"
  by code_simp

text \<open>
  Claim C6 says that a listing after an insert gives back every submitted value. The
  text \<^verbatim>\<open>nan\<close> is a price that \<^verbatim>\<open>float\<close> accepts: the insert is answered with 200 and
  the NaN, and SQLite stores NULL, which the listing gives back.
\<close>

theorem add_then_list_nan_counterexample:
  "add_appliance Inr ''2024-05-02 09:00:00''
     [(''name'', ''Kettle''), (''price'', ''nan''), (''energy_rate'', ''0.25'')] None
     (init_db None) =
   Inr ((200, Added (Some ''Kettle'') NaN None (Finite 0.25)),
        \<lparr>rows = [\<lparr>id_key = 1, name = Some ''Kettle'', energy_kwh = None, price = None,
                   energy_rate = Some (Finite 0.25),
                   timestamp = Some ''2024-05-02 09:00:00''\<rparr>],
         seq = 1\<rparr>) \<and>
   list_appliances
     \<lparr>rows = [\<lparr>id_key = 1, name = Some ''Kettle'', energy_kwh = None, price = None,
                energy_rate = Some (Finite 0.25),
                timestamp = Some ''2024-05-02 09:00:00''\<rparr>],
      seq = 1\<rparr> =
   Inr (200, Appliances
     [\<lparr>id_key = 1, name = Some ''Kettle'', energy_kwh = None, price = None,
       energy_rate = Some (Finite 0.25), timestamp = Some ''2024-05-02 09:00:00''\<rparr>]) \<and>
   py_float ''nan'' = Inr NaN"
  by code_simp

text \<open>
  Claim C6, amended. For every insert via \<^verbatim>\<open>/add_appliance\<close>, \<^verbatim>\<open>/list_appliances\<close> then
  yields, after the rows the store held, a record with the submitted name, with the
  price and the energy rate that the submitted texts denote unless they denote a NaN,
  which is read back as NULL, with the energy NULL when no image was supplied and the
  extractor's value for a supplied image; the response of the insert reports the name
  and the energy of the record, and the price and the rate as \<^verbatim>\<open>float\<close> read them.
\<close>

theorem add_then_list_round_trip:
  assumes "add_appliance readtext now form image_file db = Inr (resp, db')"
  shows "\<exists>r pr rate.
    list_appliances db' = Inr (200, Appliances (rows db @ [r])) \<and>
    name r = map_of form ''name'' \<and>
    (\<forall>s. map_of form ''price'' = Some s \<longrightarrow> py_float s = Inr pr) \<and>
    (\<forall>s. map_of form ''energy_rate'' = Some s \<longrightarrow> py_float s = Inr rate) \<and>
    (pr \<noteq> NaN \<longrightarrow> price r = Some pr) \<and> (pr = NaN \<longrightarrow> price r = None) \<and>
    (rate \<noteq> NaN \<longrightarrow> energy_rate r = Some rate) \<and> (rate = NaN \<longrightarrow> energy_rate r = None) \<and>
    (image_file = None \<longrightarrow> energy_kwh r = None) \<and>
    (\<forall>fn b. image_file = Some (fn, b) \<and> fn \<noteq> [] \<longrightarrow>
       (\<exists>t. extract_energy_from_image readtext b = Inr (energy_kwh r, t))) \<and>
    resp = (200, Added (name r) pr (energy_kwh r) rate)"
proof -
  from add_appliance_Inr [OF assms] obtain pr rate kwh where
    f: "float_field form ''price'' = Inr pr" "float_field form ''energy_rate'' = Inr rate"
    and i: "sql_insert now (map_of form ''name'') kwh pr rate db = Inr db'"
    and r: "resp = (200, Added (map_of form ''name'') pr kwh rate)"
    and n: "image_file = None \<longrightarrow> kwh = None"
      "\<forall>b. image_file = Some ([], b) \<longrightarrow> kwh = None"
      "\<forall>fn b. image_file = Some (fn, b) \<and> fn \<noteq> [] \<longrightarrow>
        (\<exists>t. extract_energy_from_image readtext b = Inr (kwh, t))"
    by blast
  have k: "Option.bind kwh sql_real = kwh"
  proof (cases kwh)
    case None
    then show ?thesis by simp
  next
    case (Some v)
    with n(1,2) obtain fn b where "image_file = Some (fn, b)" "fn \<noteq> []"
      by (cases image_file) auto
    with n(3) Some obtain t where "extract_energy_from_image readtext b = Inr (Some v, t)"
      by blast
    from extract_energy_nonneg [OF this] have "v \<noteq> NaN" by auto
    with Some show ?thesis by (simp add: sql_real_def)
  qed
  let ?r = "\<lparr>id_key = next_key db, name = map_of form ''name'', energy_kwh = kwh,
    price = sql_real pr, energy_rate = sql_real rate, timestamp = Some now\<rparr>"
  have l: "list_appliances db' = Inr (200, Appliances (rows db @ [?r]))"
    using sql_insert_Inr(1) [OF i] k by (simp add: list_appliances_def)
  have p: "\<forall>s. map_of form ''price'' = Some s \<longrightarrow> py_float s = Inr pr"
    using f(1) by (auto simp: float_field_def)
  have e: "\<forall>s. map_of form ''energy_rate'' = Some s \<longrightarrow> py_float s = Inr rate"
    using f(2) by (auto simp: float_field_def)
  show ?thesis
    apply (rule exI [of _ ?r], rule exI [of _ pr], rule exI [of _ rate])
    using l p e r n by (simp add: sql_real_def)
qed

theorem add_then_list_round_trip_witness:
  "add_appliance Inr ''2024-05-02 09:00:00''
     [(''name'', ''Kettle''), (''price'', ''3.5''), (''energy_rate'', ''0.25'')] None
     (run Inr example_events) =
   Inr ((200, Added (Some ''Kettle'') (Finite 3.5) None (Finite 0.25)),
        \<lparr>rows = rows example_store @
           [\<lparr>id_key = 5, name = Some ''Kettle'', energy_kwh = None, price = Some (Finite 3.5),
             energy_rate = Some (Finite 0.25), timestamp = Some ''2024-05-02 09:00:00''\<rparr>],
         seq = 5\<rparr>) \<and>
   (\<exists>r. list_appliances
          \<lparr>rows = rows example_store @
             [\<lparr>id_key = 5, name = Some ''Kettle'', energy_kwh = None,
               price = Some (Finite 3.5), energy_rate = Some (Finite 0.25),
               timestamp = Some ''2024-05-02 09:00:00''\<rparr>],
           seq = 5\<rparr> =
        Inr (200, Appliances (rows (run Inr example_events) @ [r])) \<and>
      name r = Some ''Kettle'' \<and> price r = Some (Finite 3.5) \<and>
      energy_rate r = Some (Finite 0.25) \<and> energy_kwh r = None)"
proof (rule conjI [OF example_add_kettle])
  let ?form = "[(''name'', ''Kettle''), (''price'', ''3.5''), (''energy_rate'', ''0.25'')]"
  from add_then_list_round_trip [OF example_add_kettle] obtain r pr rate where
    l: "list_appliances
          \<lparr>rows = rows example_store @
             [\<lparr>id_key = 5, name = Some ''Kettle'', energy_kwh = None,
               price = Some (Finite 3.5), energy_rate = Some (Finite 0.25),
               timestamp = Some ''2024-05-02 09:00:00''\<rparr>],
           seq = 5\<rparr> =
        Inr (200, Appliances (rows (run Inr example_events) @ [r]))"
    and n: "name r = map_of ?form ''name''"
    and f: "\<forall>s. map_of ?form ''price'' = Some s \<longrightarrow> py_float s = Inr pr"
      "\<forall>s. map_of ?form ''energy_rate'' = Some s \<longrightarrow> py_float s = Inr rate"
    and p: "pr \<noteq> NaN \<longrightarrow> price r = Some pr" "rate \<noteq> NaN \<longrightarrow> energy_rate r = Some rate"
    and e: "(None :: (string \<times> string list) option) = None \<longrightarrow> energy_kwh r = None"
    by blast
  have "py_float ''3.5'' = Inr (Finite 3.5)" "py_float ''0.25'' = Inr (Finite 0.25)"
    by code_simp+
  with f have "pr = Finite 3.5" "rate = Finite 0.25" by simp_all
  with l n p e show "\<exists>r. list_appliances
          \<lparr>rows = rows example_store @
             [\<lparr>id_key = 5, name = Some ''Kettle'', energy_kwh = None,
               price = Some (Finite 3.5), energy_rate = Some (Finite 0.25),
               timestamp = Some ''2024-05-02 09:00:00''\<rparr>],
           seq = 5\<rparr> =
        Inr (200, Appliances (rows (run Inr example_events) @ [r])) \<and>
      name r = Some ''Kettle'' \<and> price r = Some (Finite 3.5) \<and>
      energy_rate r = Some (Finite 0.25) \<and> energy_kwh r = None"
    by (intro exI [of _ r]) simp
qed

text \<open>
  Claim C7. For every insert that succeeds, at any moment of the life of the store (after
  any requests and restarts of the process), \<^verbatim>\<open>/list_appliances\<close> afterwards includes a
  record whose key is strictly greater than the key of every record of the store, and of
  every record that the store held at any earlier moment; no two records of the store
  share a key, and a restart leaves the store as it is.
\<close>

theorem new_key_exceeds_earlier_keys:
  assumes "add_appliance readtext now form image_file (run readtext evs) = Inr (resp, db')"
  shows "\<exists>r. list_appliances db' = Inr (200, Appliances (rows (run readtext evs) @ [r])) \<and>
    (\<forall>r0 \<in> set (rows (run readtext evs)). id_key r0 < id_key r) \<and>
    (\<forall>evs0 evs1. evs = evs0 @ evs1 \<longrightarrow>
       (\<forall>r0 \<in> set (rows (run readtext evs0)). id_key r0 < id_key r)) \<and>
    distinct (map id_key (rows db')) \<and>
    db' = run readtext (evs @ [Request now (AddAppliance form image_file)]) \<and>
    run readtext (evs @ [Request now (AddAppliance form image_file), Restart]) = db'"
proof -
  let ?db = "run readtext evs"
  from assms obtain r where r: "rows db' = rows ?db @ [r]" "id_key r = next_key ?db"
    by (rule added_row)
  have gt: "\<forall>r0 \<in> set (rows ?db). id_key r0 < id_key r"
    using next_key_gt(2) [of _ ?db] r(2) by simp
  have earlier: "\<forall>evs0 evs1. evs = evs0 @ evs1 \<longrightarrow>
       (\<forall>r0 \<in> set (rows (run readtext evs0)). id_key r0 < id_key r)"
  proof (intro allI impI ballI)
    fix evs0 evs1 r0
    assume "evs = evs0 @ evs1" and m: "r0 \<in> set (rows (run readtext evs0))"
    with run_rows_append [of readtext evs0 evs1] have "r0 \<in> set (rows ?db)" by auto
    with gt show "id_key r0 < id_key r" by blast
  qed
  have "sorted_wrt (<) (map id_key (rows db'))"
    using run_keys_sorted [of readtext evs] gt by (simp add: r(1) sorted_wrt_append)
  then have d: "distinct (map id_key (rows db'))" by (rule sorted_keys_distinct)
  have s: "db' = run readtext (evs @ [Request now (AddAppliance form image_file)])"
    using assms by (simp add: run_snoc)
  have "run readtext ((evs @ [Request now (AddAppliance form image_file)]) @ [Restart]) = db'"
    unfolding run_snoc [of readtext "evs @ [Request now (AddAppliance form image_file)]"]
    using s by (simp add: init_db_def)
  then have t: "run readtext (evs @ [Request now (AddAppliance form image_file), Restart]) = db'"
    by simp
  from gt earlier d s t r(1) show ?thesis by (auto simp: list_appliances_def)
qed

theorem new_key_exceeds_earlier_keys_witness:
  "add_appliance Inr ''2024-05-03 08:00:00'' [(''name'', ''Toaster''), (''price'', ''1'')]
     (Some (''toaster.png'', [''Rated 0.5 kW''])) (run Inr example_events) =
   Inr ((200, Added (Some ''Toaster'') (Finite 1) (Some (Finite 4.38)) (Finite 0)),
        \<lparr>rows = rows example_store @
           [\<lparr>id_key = 5, name = Some ''Toaster'', energy_kwh = Some (Finite 4.38),
             price = Some (Finite 1), energy_rate = Some (Finite 0),
             timestamp = Some ''2024-05-03 08:00:00''\<rparr>],
         seq = 5\<rparr>) \<and>
   (\<exists>r::appliance. (\<forall>r0 \<in> set (rows (run Inr example_events)). id_key r0 < id_key r) \<and>
      (\<forall>r0 \<in> set (rows (run Inr (take 2 example_events))). id_key r0 < id_key r) \<and>
      id_key r = 5) \<and>
   example_events = take 2 example_events @ drop 2 example_events"
proof (intro conjI)
  let ?db' = "\<lparr>rows = rows example_store @
           [\<lparr>id_key = 5, name = Some ''Toaster'', energy_kwh = Some (Finite 4.38),
             price = Some (Finite 1), energy_rate = Some (Finite 0),
             timestamp = Some ''2024-05-03 08:00:00''\<rparr>],
         seq = 5\<rparr>"
  show "add_appliance Inr ''2024-05-03 08:00:00'' [(''name'', ''Toaster''), (''price'', ''1'')]
     (Some (''toaster.png'', [''Rated 0.5 kW''])) (run Inr example_events) =
   Inr ((200, Added (Some ''Toaster'') (Finite 1) (Some (Finite 4.38)) (Finite 0)), ?db')"
    by (rule example_add_toaster)
  show split: "example_events = take 2 example_events @ drop 2 example_events" by simp
  from new_key_exceeds_earlier_keys [OF example_add_toaster] obtain r where
    l: "list_appliances ?db' = Inr (200, Appliances (rows (run Inr example_events) @ [r]))"
    and g: "\<forall>r0 \<in> set (rows (run Inr example_events)). id_key r0 < id_key r"
    and e: "\<forall>evs0 evs1. example_events = evs0 @ evs1 \<longrightarrow>
       (\<forall>r0 \<in> set (rows (run Inr evs0)). id_key r0 < id_key r)"
    by blast
  from e split have e2: "\<forall>r0 \<in> set (rows (run Inr (take 2 example_events))). id_key r0 < id_key r"
    by blast
  from l have "id_key r = 5" by (auto simp: list_appliances_def example_run)
  with g e2 show "\<exists>r::appliance. (\<forall>r0 \<in> set (rows (run Inr example_events)). id_key r0 < id_key r) \<and>
      (\<forall>r0 \<in> set (rows (run Inr (take 2 example_events))). id_key r0 < id_key r) \<and>
      id_key r = 5"
    by (intro exI [of _ r]) simp
qed

text \<open>
  Claim C8. Every record that requests to the API have persisted, with or without an
  uploaded image, at any moment of the life of the store, holds an energy that is NULL
  or not negative: a finite number from 0 on, or the positive infinity that a number
  beyond the largest float is read as.
\<close>

theorem persisted_energy_null_or_nonnegative:
  "\<forall>r \<in> set (rows (run readtext evs)).
     energy_kwh r = None \<or> energy_kwh r = Some PosInf \<or>
     (\<exists>e. energy_kwh r = Some (Finite e) \<and> 0 \<le> e)"
  using run_energy_nonneg by blast

theorem persisted_energy_null_or_nonnegative_witness:
  "hd (rows (run Inr example_events)) \<in> set (rows (run Inr example_events)) \<and>
   (energy_kwh (hd (rows (run Inr example_events))) = None \<or>
    energy_kwh (hd (rows (run Inr example_events))) = Some PosInf \<or>
    (\<exists>e. energy_kwh (hd (rows (run Inr example_events))) = Some (Finite e) \<and> 0 \<le> e)) \<and>
   energy_kwh (hd (rows (run Inr example_events))) = Some (Finite 250)"
proof -
  have m: "hd (rows (run Inr example_events)) \<in> set (rows (run Inr example_events))"
    by (simp add: example_run example_store_def)
  have v: "energy_kwh (hd (rows (run Inr example_events))) = Some (Finite 250)"
    by (simp add: example_run example_store_def)
  from persisted_energy_null_or_nonnegative [of Inr example_events, THEN bspec, OF m] m v
  show ?thesis by blast
qed

section \<open>Validation in \<^verbatim>\<open>/add_appliance\<close>\<close>

lemma float_field_error:
  "map_of form k = Some s \<Longrightarrow> py_float s = Inl e \<Longrightarrow> float_field form k = Inl e"
  by (simp add: float_field_def)

lemma float_field_missing: "map_of form k = None \<Longrightarrow> float_field form k = Inr (Finite 0)"
  by (simp add: float_field_def)

lemma add_appliance_no_image:
  assumes "float_field form ''price'' = Inr pr" "float_field form ''energy_rate'' = Inr rate"
    and "next_key db \<le> 9223372036854775807"
  shows "add_appliance readtext now form None db =
    Inr ((200, Added (map_of form ''name'') pr None rate),
         \<lparr>rows = rows db @
            [\<lparr>id_key = next_key db, name = map_of form ''name'', energy_kwh = None,
              price = sql_real pr, energy_rate = sql_real rate, timestamp = Some now\<rparr>],
          seq = next_key db\<rparr>)"
  using assms by (simp add: add_appliance_def sql_insert_def Let_def)

text \<open>
  Claim C9 says that a missing or malformed \<^verbatim>\<open>price\<close> or \<^verbatim>\<open>energy_rate\<close> is answered
  with HTTP 400. The handler has no such check: with both fields missing the record is
  persisted with 0 for each, and a text that is no number raises \<^verbatim>\<open>ValueError\<close> out of
  the handler.
\<close>

theorem add_appliance_validation_counterexample:
  "add_appliance Inr ''2024-05-02 09:00:00'' [(''name'', ''Kettle'')] None (init_db None) =
     Inr ((200, Added (Some ''Kettle'') (Finite 0) None (Finite 0)),
          \<lparr>rows = [\<lparr>id_key = 1, name = Some ''Kettle'', energy_kwh = None,
                     price = Some (Finite 0), energy_rate = Some (Finite 0),
                     timestamp = Some ''2024-05-02 09:00:00''\<rparr>],
           seq = 1\<rparr>) \<and>
   add_appliance Inr ''2024-05-02 09:00:00'' [(''name'', ''Kettle''), (''price'', ''cheap'')]
     None (init_db None) = Inl ValueError"
  by code_simp

text \<open>
  Claim C9, amended. \<^verbatim>\<open>/add_appliance\<close> answers no request with a status other than 200,
  and every answer comes with one more record in the store, in which a missing \<^verbatim>\<open>price\<close>
  and a missing \<^verbatim>\<open>energy_rate\<close> are 0; a request with no \<^verbatim>\<open>price\<close> or no
  \<^verbatim>\<open>energy_rate\<close>, the other field missing too or a number, is answered so (shown for a
  request with no image, while the store has a key left); a \<^verbatim>\<open>price\<close> or an
  \<^verbatim>\<open>energy_rate\<close> that \<^verbatim>\<open>float\<close> rejects raises \<^verbatim>\<open>ValueError\<close>, and nothing is stored.
\<close>

theorem add_appliance_without_validation:
  "(\<forall>status body db'.
      add_appliance readtext now form image_file db = Inr ((status, body), db') \<longrightarrow>
      status = 200 \<and>
      (\<exists>r. rows db' = rows db @ [r] \<and>
         (map_of form ''price'' = None \<longrightarrow> price r = Some (Finite 0)) \<and>
         (map_of form ''energy_rate'' = None \<longrightarrow> energy_rate r = Some (Finite 0)))) \<and>
   (\<forall>rate. map_of form ''price'' = None \<and> float_field form ''energy_rate'' = Inr rate \<and>
      image_file = None \<and> next_key db \<le> 9223372036854775807 \<longrightarrow>
      add_appliance readtext now form image_file db =
        Inr ((200, Added (map_of form ''name'') (Finite 0) None rate),
             \<lparr>rows = rows db @
                [\<lparr>id_key = next_key db, name = map_of form ''name'', energy_kwh = None,
                  price = Some (Finite 0), energy_rate = sql_real rate,
                  timestamp = Some now\<rparr>],
              seq = next_key db\<rparr>)) \<and>
   (\<forall>pr. float_field form ''price'' = Inr pr \<and> map_of form ''energy_rate'' = None \<and>
      image_file = None \<and> next_key db \<le> 9223372036854775807 \<longrightarrow>
      add_appliance readtext now form image_file db =
        Inr ((200, Added (map_of form ''name'') pr None (Finite 0)),
             \<lparr>rows = rows db @
                [\<lparr>id_key = next_key db, name = map_of form ''name'', energy_kwh = None,
                  price = sql_real pr, energy_rate = Some (Finite 0),
                  timestamp = Some now\<rparr>],
              seq = next_key db\<rparr>)) \<and>
   (\<forall>s. map_of form ''price'' = Some s \<and> py_float s = Inl ValueError \<longrightarrow>
      add_appliance readtext now form image_file db = Inl ValueError) \<and>
   (\<forall>s pr. float_field form ''price'' = Inr pr \<and> map_of form ''energy_rate'' = Some s \<and>
      py_float s = Inl ValueError \<longrightarrow>
      add_appliance readtext now form image_file db = Inl ValueError)"
proof (intro conjI allI impI)
  fix status body db'
  assume a: "add_appliance readtext now form image_file db = Inr ((status, body), db')"
  from add_appliance_Inr [OF a] show "status = 200" by blast
next
  fix status body db'
  assume a: "add_appliance readtext now form image_file db = Inr ((status, body), db')"
  from add_appliance_Inr [OF a] obtain pr rate kwh where
    f: "float_field form ''price'' = Inr pr" "float_field form ''energy_rate'' = Inr rate"
    and i: "sql_insert now (map_of form ''name'') kwh pr rate db = Inr db'"
    by blast
  let ?r = "\<lparr>id_key = next_key db, name = map_of form ''name'',
    energy_kwh = Option.bind kwh sql_real, price = sql_real pr, energy_rate = sql_real rate,
    timestamp = Some now\<rparr>"
  have "rows db' = rows db @ [?r]" by (rule sql_insert_Inr(1) [OF i])
  moreover have "map_of form ''price'' = None \<longrightarrow> price ?r = Some (Finite 0)"
  proof
    assume "map_of form ''price'' = None"
    from float_field_missing [OF this] f(1) have "pr = Finite 0" by simp
    then show "price ?r = Some (Finite 0)" by (simp add: sql_real_def)
  qed
  moreover have "map_of form ''energy_rate'' = None \<longrightarrow> energy_rate ?r = Some (Finite 0)"
  proof
    assume "map_of form ''energy_rate'' = None"
    from float_field_missing [OF this] f(2) have "rate = Finite 0" by simp
    then show "energy_rate ?r = Some (Finite 0)" by (simp add: sql_real_def)
  qed
  ultimately show "\<exists>r. rows db' = rows db @ [r] \<and>
         (map_of form ''price'' = None \<longrightarrow> price r = Some (Finite 0)) \<and>
         (map_of form ''energy_rate'' = None \<longrightarrow> energy_rate r = Some (Finite 0))"
    by (intro exI [of _ ?r] conjI)
next
  fix rate
  assume a: "map_of form ''price'' = None \<and> float_field form ''energy_rate'' = Inr rate \<and>
      image_file = None \<and> next_key db \<le> 9223372036854775807"
  then have "float_field form ''price'' = Inr (Finite 0)" by (simp add: float_field_missing)
  from add_appliance_no_image [OF this, of rate db readtext now] a
  show "add_appliance readtext now form image_file db =
        Inr ((200, Added (map_of form ''name'') (Finite 0) None rate),
             \<lparr>rows = rows db @
                [\<lparr>id_key = next_key db, name = map_of form ''name'', energy_kwh = None,
                  price = Some (Finite 0), energy_rate = sql_real rate,
                  timestamp = Some now\<rparr>],
              seq = next_key db\<rparr>)"
    by (simp add: sql_real_def)
next
  fix pr
  assume a: "float_field form ''price'' = Inr pr \<and> map_of form ''energy_rate'' = None \<and>
      image_file = None \<and> next_key db \<le> 9223372036854775807"
  then have "float_field form ''energy_rate'' = Inr (Finite 0)"
    by (simp add: float_field_missing)
  from add_appliance_no_image [OF _ this, of pr db readtext now] a
  show "add_appliance readtext now form image_file db =
        Inr ((200, Added (map_of form ''name'') pr None (Finite 0)),
             \<lparr>rows = rows db @
                [\<lparr>id_key = next_key db, name = map_of form ''name'', energy_kwh = None,
                  price = sql_real pr, energy_rate = Some (Finite 0),
                  timestamp = Some now\<rparr>],
              seq = next_key db\<rparr>)"
    by (simp add: sql_real_def)
next
  fix s
  assume "map_of form ''price'' = Some s \<and> py_float s = Inl ValueError"
  then show "add_appliance readtext now form image_file db = Inl ValueError"
    by (simp add: add_appliance_def float_field_def)
next
  fix s pr
  assume "float_field form ''price'' = Inr pr \<and> map_of form ''energy_rate'' = Some s \<and>
      py_float s = Inl ValueError"
  then show "add_appliance readtext now form image_file db = Inl ValueError"
    by (simp add: add_appliance_def float_field_error)
qed

theorem add_appliance_without_validation_witness:
  "add_appliance Inr ''2024-05-02 09:00:00'' [(''name'', ''Mixer''), (''energy_rate'', ''0.3'')]
     None (init_db None) =
     Inr ((200, Added (Some ''Mixer'') (Finite 0) None (Finite 0.3)),
          \<lparr>rows = [\<lparr>id_key = 1, name = Some ''Mixer'', energy_kwh = None,
                     price = Some (Finite 0), energy_rate = Some (Finite 0.3),
                     timestamp = Some ''2024-05-02 09:00:00''\<rparr>],
           seq = 1\<rparr>) \<and>
   add_appliance Inr ''2024-05-02 09:00:00'' [(''name'', ''Mixer''), (''price'', ''12.5'')]
     None (init_db None) =
     Inr ((200, Added (Some ''Mixer'') (Finite 12.5) None (Finite 0)),
          \<lparr>rows = [\<lparr>id_key = 1, name = Some ''Mixer'', energy_kwh = None,
                     price = Some (Finite 12.5), energy_rate = Some (Finite 0),
                     timestamp = Some ''2024-05-02 09:00:00''\<rparr>],
           seq = 1\<rparr>) \<and>
   (\<exists>r. rows \<lparr>rows = [\<lparr>id_key = 1, name = Some ''Mixer'', energy_kwh = None,
                     price = Some (Finite 0), energy_rate = Some (Finite 0.3),
                     timestamp = Some ''2024-05-02 09:00:00''\<rparr>],
           seq = 1\<rparr> = rows (init_db None) @ [r] \<and> price r = Some (Finite 0)) \<and>
   add_appliance Inr ''2024-05-02 09:00:00'' [(''name'', ''Mixer''), (''price'', ''12,5'')] None
     (init_db None) = Inl ValueError \<and>
   add_appliance Inr ''2024-05-02 09:00:00''
     [(''name'', ''Mixer''), (''price'', ''12.5''), (''energy_rate'', CHR 0x1C # ''1.5'')] None
     (init_db None) = Inl ValueError"
proof -
  let ?now = "''2024-05-02 09:00:00''"
  let ?f1 = "[(''name'', ''Mixer''), (''energy_rate'', ''0.3'')]"
  let ?f2 = "[(''name'', ''Mixer''), (''price'', ''12.5'')]"
  let ?f3 = "[(''name'', ''Mixer''), (''price'', ''12,5'')]"
  let ?f4 = "[(''name'', ''Mixer''), (''price'', ''12.5''), (''energy_rate'', CHR 0x1C # ''1.5'')]"
  let ?db1 = "\<lparr>rows = [\<lparr>id_key = 1, name = Some ''Mixer'', energy_kwh = None,
                     price = Some (Finite 0), energy_rate = Some (Finite 0.3),
                     timestamp = Some ?now\<rparr>], seq = 1\<rparr>"
  have k: "next_key (init_db None) = 1" "rows (init_db None) = []"
    by (simp_all add: next_key_def init_db_def)
  have e: "py_float ''0.3'' = Inr (Finite 0.3)" "py_float ''12.5'' = Inr (Finite 12.5)"
    "py_float ''12,5'' = Inl ValueError" "py_float (CHR 0x1C # ''1.5'') = Inl ValueError"
    by code_simp+
  have a: "add_appliance Inr ?now ?f1 None (init_db None) =
     Inr ((200, Added (Some ''Mixer'') (Finite 0) None (Finite 0.3)), ?db1)"
    using add_appliance_without_validation
      [of Inr ?now ?f1 None "init_db None", THEN conjunct2, THEN conjunct1, THEN spec,
        of "Finite 0.3"] e(1)
    by (simp add: k float_field_def sql_real_def)
  have b: "add_appliance Inr ?now ?f2 None (init_db None) =
     Inr ((200, Added (Some ''Mixer'') (Finite 12.5) None (Finite 0)),
          \<lparr>rows = [\<lparr>id_key = 1, name = Some ''Mixer'', energy_kwh = None,
                     price = Some (Finite 12.5), energy_rate = Some (Finite 0),
                     timestamp = Some ?now\<rparr>], seq = 1\<rparr>)"
    using add_appliance_without_validation
      [of Inr ?now ?f2 None "init_db None", THEN conjunct2, THEN conjunct2, THEN conjunct1,
        THEN spec, of "Finite 12.5"] e(2)
    by (simp add: k float_field_def sql_real_def)
  have c: "\<exists>r. rows ?db1 = rows (init_db None) @ [r] \<and> price r = Some (Finite 0)"
    using add_appliance_without_validation
      [of Inr ?now ?f1 None "init_db None", THEN conjunct1, THEN spec, THEN spec, THEN spec,
        THEN mp, OF a]
    by auto
  have d: "add_appliance Inr ?now ?f3 None (init_db None) = Inl ValueError"
    using add_appliance_without_validation
      [of Inr ?now ?f3 None "init_db None", THEN conjunct2, THEN conjunct2, THEN conjunct2,
        THEN conjunct1, THEN spec, of "''12,5''"] e(3)
    by simp
  have f: "add_appliance Inr ?now ?f4 None (init_db None) = Inl ValueError"
  proof (rule add_appliance_without_validation
      [of Inr ?now ?f4 None "init_db None", THEN conjunct2, THEN conjunct2, THEN conjunct2,
        THEN conjunct2, THEN spec, THEN spec, THEN mp])
    show "float_field ?f4 ''price'' = Inr (Finite 12.5) \<and>
      map_of ?f4 ''energy_rate'' = Some (CHR 0x1C # ''1.5'') \<and>
      py_float (CHR 0x1C # ''1.5'') = Inl ValueError"
      using e by (simp add: float_field_def)
  qed
  from a b c d f show ?thesis by blast
qed

section \<open>Comparison\<close>



lemma select_in_commute: "select_in numeric db p0 p1 = select_in numeric db p1 p0"
  by (simp add: select_in_def disj_commute)










lemma compare_int_ids:
  assumes "compare numeric (JObj [(''ids'', JList [JInt x, JInt y])]) db =
    Inr (status, Comparison A B rec)"
  shows "\<exists>a1 a2. select_in numeric db (SqlInteger x) (SqlInteger y) = [a1, a2] \<and>
    A = Entry (name a1) (cost a1) (fmul (cost a1) (Finite 0.82)) \<and>
    B = Entry (name a2) (cost a2) (fmul (cost a2) (Finite 0.82))"
  using assms unfolding compare_def Let_def
  by (auto simp: dict_get_def split: sum.splits list.splits if_splits)

lemma compare_int_ids_commute:
  "compare numeric (JObj [(''ids'', JList [JInt x, JInt y])]) db =
   compare numeric (JObj [(''ids'', JList [JInt y, JInt x])]) db"
proof -
  have "select_in numeric db (SqlInteger x) (SqlInteger y) =
        select_in numeric db (SqlInteger y) (SqlInteger x)"
    by (rule select_in_commute)
  then show ?thesis
    by (simp add: compare_def dict_get_def)
qed

lemma sorted_pair_of_filter:
  assumes "sorted_wrt (<) (map id_key rs)" and "filter P rs = [a1, a2]"
  shows "id_key a1 < id_key a2"
proof -
  from assms(1) have "sorted_wrt (\<lambda>a b. id_key a < id_key b) rs"
    by (simp add: sorted_wrt_map)
  then have "sorted_wrt (\<lambda>a b. id_key a < id_key b) (filter P rs)"
    by (rule sorted_wrt_filter)
  with assms(2) show ?thesis by simp
qed



lemma example_compare_2_1:
  "compare (\<lambda>t. None) (JObj [(''ids'', JList [JInt 2, JInt 1])]) (run Inr example_events) =
     Inr (200, Comparison (Entry (Some ''Fridge'') (Finite 100) (Finite 82)) (Entry (Some ''Oven'') (Finite 80) (Finite 65.6))
       (Some ''Oven''))"
  by code_simp










text \<open>
  Claim C10. The answers of \<^verbatim>\<open>/compare\<close> to the identifiers \<open>[x, y]\<close> and \<open>[y, x]\<close> are
  the same; and in a comparison returned on a store that requests to the API have
  filled, side A is the record with the smaller key and side B the record with the
  larger one, whatever the order of the request.
\<close>

theorem compare_ignores_request_order:
  "compare numeric (JObj [(''ids'', JList [JInt x, JInt y])]) db =
   compare numeric (JObj [(''ids'', JList [JInt y, JInt x])]) db \<and>
   (\<forall>status A B rec.
      compare numeric (JObj [(''ids'', JList [JInt x, JInt y])]) (run readtext reqs) =
        Inr (status, Comparison A B rec) \<longrightarrow>
      (\<exists>a1 a2. a1 \<in> set (rows (run readtext reqs)) \<and> a2 \<in> set (rows (run readtext reqs)) \<and>
         id_key a1 = min x y \<and> id_key a2 = max x y \<and> id_key a1 < id_key a2 \<and>
         A = Entry (name a1) (cost a1) (fmul (cost a1) (Finite 0.82)) \<and>
         B = Entry (name a2) (cost a2) (fmul (cost a2) (Finite 0.82))))"
proof (intro conjI allI impI)
  show "compare numeric (JObj [(''ids'', JList [JInt x, JInt y])]) db =
   compare numeric (JObj [(''ids'', JList [JInt y, JInt x])]) db"
    by (rule compare_int_ids_commute)
next
  fix status A B rec
  let ?db = "run readtext reqs"
  assume "compare numeric (JObj [(''ids'', JList [JInt x, JInt y])]) ?db =
        Inr (status, Comparison A B rec)"
  from compare_int_ids [OF this] obtain a1 a2 where
    s: "select_in numeric ?db (SqlInteger x) (SqlInteger y) = [a1, a2]"
    and AB: "A = Entry (name a1) (cost a1) (fmul (cost a1) (Finite 0.82))"
      "B = Entry (name a2) (cost a2) (fmul (cost a2) (Finite 0.82))"
    by blast
  from s have lt: "id_key a1 < id_key a2"
    unfolding select_in_def by (rule sorted_pair_of_filter [OF run_keys_sorted])
  from s have "a1 \<in> set (select_in numeric ?db (SqlInteger x) (SqlInteger y))"
    "a2 \<in> set (select_in numeric ?db (SqlInteger x) (SqlInteger y))" by simp_all
  then have m: "a1 \<in> set (rows ?db)" "a2 \<in> set (rows ?db)"
    "id_key a1 = x \<or> id_key a1 = y" "id_key a2 = x \<or> id_key a2 = y"
    by (auto simp: select_in_def key_equals_def)
  with lt have "id_key a1 = min x y" "id_key a2 = max x y" by auto
  with m(1,2) lt AB
  show "\<exists>a1 a2. a1 \<in> set (rows ?db) \<and> a2 \<in> set (rows ?db) \<and>
         id_key a1 = min x y \<and> id_key a2 = max x y \<and> id_key a1 < id_key a2 \<and>
         A = Entry (name a1) (cost a1) (fmul (cost a1) (Finite 0.82)) \<and>
         B = Entry (name a2) (cost a2) (fmul (cost a2) (Finite 0.82))"
    by blast
qed

theorem compare_ignores_request_order_witness:
  "compare (\<lambda>t. None) (JObj [(''ids'', JList [JInt 2, JInt 1])]) (run Inr example_events) =
     Inr (200, Comparison (Entry (Some ''Fridge'') (Finite 100) (Finite 82)) (Entry (Some ''Oven'') (Finite 80) (Finite 65.6))
       (Some ''Oven'')) \<and>
   compare (\<lambda>t. None) (JObj [(''ids'', JList [JInt 2, JInt 1])]) (run Inr example_events) =
   compare (\<lambda>t. None) (JObj [(''ids'', JList [JInt 1, JInt 2])]) (run Inr example_events) \<and>
   (\<exists>a1 a2. a1 \<in> set (rows (run Inr example_events)) \<and>
      a2 \<in> set (rows (run Inr example_events)) \<and>
      id_key a1 = min 2 1 \<and> id_key a2 = max 2 1 \<and> id_key a1 < id_key a2 \<and>
      Entry (Some ''Fridge'') (Finite 100) (Finite 82) = Entry (name a1) (cost a1) (fmul (cost a1) (Finite 0.82)) \<and>
      Entry (Some ''Oven'') (Finite 80) (Finite 65.6) = Entry (name a2) (cost a2) (fmul (cost a2) (Finite 0.82)))"
  using example_compare_2_1
    compare_ignores_request_order [of "\<lambda>t. None" 2 1 "run Inr example_events" Inr
      example_events, THEN conjunct1]
    compare_ignores_request_order [of "\<lambda>t. None" 2 1 "run Inr example_events" Inr
      example_events, THEN conjunct2, rule_format, OF example_compare_2_1]
  by (intro conjI)

end
